theory Spec2Isabelle
  imports Main "HOL-Library.Multiset"
begin

section \<open>Python values\<close>

text \<open>
  Exceptions are values: a function that can raise returns \<open>py_error + 'a\<close>, with
  \<open>Inl\<close> for the exception.
\<close>

datatype py_error = ValueError | KeyError | TypeError

definition bind_err :: "py_error + 'a \<Rightarrow> ('a \<Rightarrow> py_error + 'b) \<Rightarrow> py_error + 'b" where
  "bind_err r f = (case r of Inl err \<Rightarrow> Inl err | Inr v \<Rightarrow> f v)"

subsection \<open>Naive datetimes (the standard library's \<open>datetime.datetime\<close>)\<close>

text \<open>
  A naive \<open>datetime\<close> object holds its calendar fields. Python builds such objects only
  with fields in range (\<open>valid_datetime\<close>); the record type is wider, and the functions
  below are meaningful on valid values. A \<open>timedelta\<close> is its total number of
  microseconds, which is what comparison of timedeltas compares.
\<close>

record datetime =
  year :: int
  month :: int
  day :: int
  hour :: int
  minute :: int
  second :: int
  microsecond :: int

definition is_leap :: "int \<Rightarrow> bool" where
  "is_leap y = (y mod 4 = 0 \<and> (y mod 100 \<noteq> 0 \<or> y mod 400 = 0))"

definition days_before_year :: "int \<Rightarrow> int" where
  "days_before_year y = (y - 1) * 365 + (y - 1) div 4 - (y - 1) div 100 + (y - 1) div 400"

definition DAYS_IN_MONTH :: "int list" where
  "DAYS_IN_MONTH = [-1, 31, 28, 31, 30, 31, 30, 31, 31, 30, 31, 30, 31]"

definition DAYS_BEFORE_MONTH :: "int list" where
  "DAYS_BEFORE_MONTH = [-1, 0, 31, 59, 90, 120, 151, 181, 212, 243, 273, 304, 334]"

text \<open>Both lookups are by month number; outside 1..12 (which Python asserts away) the model gives 0.\<close>

definition days_in_month :: "int \<Rightarrow> int \<Rightarrow> int" where
  "days_in_month y m =
     (if m = 2 \<and> is_leap y then 29
      else if 1 \<le> m \<and> m \<le> 12 then DAYS_IN_MONTH ! nat m else 0)"

definition days_before_month :: "int \<Rightarrow> int \<Rightarrow> int" where
  "days_before_month y m =
     (if 1 \<le> m \<and> m \<le> 12
      then DAYS_BEFORE_MONTH ! nat m + (if m > 2 \<and> is_leap y then 1 else 0) else 0)"

definition valid_datetime :: "datetime \<Rightarrow> bool" where
  "valid_datetime d =
     (1 \<le> year d \<and> year d \<le> 9999 \<and> 1 \<le> month d \<and> month d \<le> 12 \<and>
      1 \<le> day d \<and> day d \<le> days_in_month (year d) (month d) \<and>
      0 \<le> hour d \<and> hour d \<le> 23 \<and> 0 \<le> minute d \<and> minute d \<le> 59 \<and>
      0 \<le> second d \<and> second d \<le> 59 \<and> 0 \<le> microsecond d \<and> microsecond d \<le> 999999)"

definition toordinal :: "datetime \<Rightarrow> int" where
  "toordinal d = days_before_year (year d) + days_before_month (year d) (month d) + day d"

text \<open>\<open>a - b\<close> on two naive datetimes, as microseconds.\<close>

definition dt_sub :: "datetime \<Rightarrow> datetime \<Rightarrow> int" where
  "dt_sub a b =
     (toordinal a - toordinal b) * 86400000000
     + ((second a + minute a * 60 + hour a * 3600) - (second b + minute b * 60 + hour b * 3600)) * 1000000
     + (microsecond a - microsecond b)"

text \<open>
  The instant of a naive datetime as microseconds since the start of ordinal day 0, so
  that \<open>a - timedelta(days=n)\<close> is \<open>micros_of a - n * 86400000000\<close>.
\<close>

definition micros_of :: "datetime \<Rightarrow> int" where
  "micros_of d =
     toordinal d * 86400000000
     + (second d + minute d * 60 + hour d * 3600) * 1000000 + microsecond d"

text \<open>\<open>a < b\<close> compares the field tuples lexicographically.\<close>

fun tuple_less :: "int list \<Rightarrow> int list \<Rightarrow> bool" where
  "tuple_less (x # xs) (y # ys) = (x < y \<or> (x = y \<and> tuple_less xs ys))"
| "tuple_less [] (y # ys) = True"
| "tuple_less xs [] = False"

definition dt_tuple :: "datetime \<Rightarrow> int list" where
  "dt_tuple d = [year d, month d, day d, hour d, minute d, second d, microsecond d]"

definition dt_less :: "datetime \<Rightarrow> datetime \<Rightarrow> bool" where
  "dt_less a b = tuple_less (dt_tuple a) (dt_tuple b)"

text \<open>\<open>d.replace(day=v)\<close> builds a new object and so re-checks the date fields.\<close>

definition replace_day :: "datetime \<Rightarrow> int \<Rightarrow> py_error + datetime" where
  "replace_day d v =
     (if 1 \<le> v \<and> v \<le> days_in_month (year d) (month d) then Inr (d\<lparr>day := v\<rparr>)
      else Inl ValueError)"

text \<open>
  \<open>isoformat()\<close> of a naive datetime: \<open>YYYY-MM-DDTHH:MM:SS\<close>, followed by
  \<open>.ffffff\<close> when the microsecond field is not zero.
\<close>

fun pad :: "nat \<Rightarrow> nat \<Rightarrow> string" where
  "pad 0 n = []"
| "pad (Suc w) n = pad w (n div 10) @ [char_of (48 + n mod 10)]"

definition isoformat :: "datetime \<Rightarrow> string" where
  "isoformat d =
     pad 4 (nat (year d)) @ ''-'' @ pad 2 (nat (month d)) @ ''-'' @ pad 2 (nat (day d)) @ ''T''
     @ pad 2 (nat (hour d)) @ '':'' @ pad 2 (nat (minute d)) @ '':'' @ pad 2 (nat (second d))
     @ (if microsecond d \<noteq> 0 then ''.'' @ pad 6 (nat (microsecond d)) else [])"

text \<open>
  \<open>fromisoformat\<close>, restricted to the two layouts \<open>isoformat\<close> emits; every other string
  is a \<open>ValueError\<close> here (CPython accepts further ISO 8601 layouts, none of which
  \<open>to_dict\<close> produces).
\<close>

definition digit_val :: "char \<Rightarrow> nat option" where
  "digit_val c = (if 48 \<le> (of_char c :: nat) \<and> (of_char c :: nat) \<le> 57
                  then Some (of_char c - 48) else None)"

fun parse_digits :: "nat \<Rightarrow> string \<Rightarrow> nat option" where
  "parse_digits acc [] = Some acc"
| "parse_digits acc (c # cs) =
     (case digit_val c of None \<Rightarrow> None | Some v \<Rightarrow> parse_digits (acc * 10 + v) cs)"

definition field :: "string \<Rightarrow> nat \<Rightarrow> nat \<Rightarrow> nat option" where
  "field s i w = parse_digits 0 (take w (drop i s))"

definition fromisoformat :: "string \<Rightarrow> py_error + datetime" where
  "fromisoformat s =
     (if (length s = 19 \<or> (length s = 26 \<and> s ! 19 = CHR ''.''))
         \<and> s ! 4 = CHR ''-'' \<and> s ! 7 = CHR ''-'' \<and> s ! 10 = CHR ''T''
         \<and> s ! 13 = CHR '':'' \<and> s ! 16 = CHR '':''
      then (case (field s 0 4, field s 5 2, field s 8 2, field s 11 2, field s 14 2, field s 17 2,
                  if length s = 26 then field s 20 6 else Some 0) of
              (Some y, Some mo, Some d, Some h, Some mi, Some sec, Some us) \<Rightarrow>
                (let dt = \<lparr>year = int y, month = int mo, day = int d, hour = int h,
                           minute = int mi, second = int sec, microsecond = int us\<rparr>
                 in if valid_datetime dt then Inr dt else Inl ValueError)
            | _ \<Rightarrow> Inl ValueError)
      else Inl ValueError)"

subsection \<open>Dictionaries of plain values\<close>

datatype pyval = PNone | PBool bool | PInt int | PStr string | PList "pyval list"

type_synonym pydict = "(string \<times> pyval) list"

fun truthy :: "pyval \<Rightarrow> bool" where
  "truthy PNone = False"
| "truthy (PBool b) = b"
| "truthy (PInt i) = (i \<noteq> 0)"
| "truthy (PStr s) = (s \<noteq> [])"
| "truthy (PList xs) = (xs \<noteq> [])"

text \<open>\<open>data[k]\<close> raises \<open>KeyError\<close> on a missing key; \<open>data.get(k, dflt)\<close> does not.\<close>

definition getitem :: "pydict \<Rightarrow> string \<Rightarrow> py_error + pyval" where
  "getitem data k = (case map_of data k of None \<Rightarrow> Inl KeyError | Some v \<Rightarrow> Inr v)"

definition dict_get :: "pydict \<Rightarrow> string \<Rightarrow> pyval \<Rightarrow> pyval" where
  "dict_get data k dflt = (case map_of data k of None \<Rightarrow> dflt | Some v \<Rightarrow> v)"

text \<open>
  The event's fields are typed in this model. Reading a dictionary value into a field of
  another type is outside the model and is reported as \<open>TypeError\<close> (Python itself would
  store the ill-typed object); \<open>to_dict\<close> never produces such a value.
\<close>

fun as_int :: "pyval \<Rightarrow> py_error + int" where
  "as_int (PInt i) = Inr i"
| "as_int v = Inl TypeError"

fun as_str :: "pyval \<Rightarrow> py_error + string" where
  "as_str (PStr s) = Inr s"
| "as_str v = Inl TypeError"

fun as_bool :: "pyval \<Rightarrow> py_error + bool" where
  "as_bool (PBool b) = Inr b"
| "as_bool v = Inl TypeError"

fun as_opt_int :: "pyval \<Rightarrow> py_error + int option" where
  "as_opt_int PNone = Inr None"
| "as_opt_int (PInt i) = Inr (Some i)"
| "as_opt_int v = Inl TypeError"

fun as_int_list :: "pyval \<Rightarrow> py_error + int list" where
  "as_int_list (PList []) = Inr []"
| "as_int_list (PList (PInt i # xs)) = bind_err (as_int_list (PList xs)) (\<lambda>r. Inr (i # r))"
| "as_int_list v = Inl TypeError"

fun as_int_list_list :: "pyval \<Rightarrow> py_error + int list list" where
  "as_int_list_list (PList []) = Inr []"
| "as_int_list_list (PList (x # xs)) =
     bind_err (as_int_list x) (\<lambda>t. bind_err (as_int_list_list (PList xs)) (\<lambda>r. Inr (t # r)))"
| "as_int_list_list v = Inl TypeError"

definition of_opt_int :: "int option \<Rightarrow> pyval" where
  "of_opt_int v = (case v of None \<Rightarrow> PNone | Some i \<Rightarrow> PInt i)"

section \<open>utils/constants.py\<close>

datatype EventType = BINGO | PVP_TOURNAMENT | GENERAL

datatype EventStatus = OPEN | FULL | IN_PROGRESS | COMPLETED | CANCELLED

text \<open>The enum values; the accented letters are the code points U+00C9 and U+00E9.\<close>

fun EventType_value :: "EventType \<Rightarrow> string" where
  "EventType_value BINGO = ''Bingo''"
| "EventType_value PVP_TOURNAMENT = ''Tournoi JcJ''"
| "EventType_value GENERAL = CHR 0xC9 # ''v'' @ CHR 0xE9 # ''nement g'' @ CHR 0xE9 # ''n'' @ CHR 0xE9 # ''ral''"

fun EventStatus_value :: "EventStatus \<Rightarrow> string" where
  "EventStatus_value OPEN = ''Ouvert''"
| "EventStatus_value FULL = ''Complet''"
| "EventStatus_value IN_PROGRESS = ''En cours''"
| "EventStatus_value COMPLETED = ''Termin'' @ [CHR 0xE9]"
| "EventStatus_value CANCELLED = ''Annul'' @ [CHR 0xE9]"

text \<open>\<open>EventType(v)\<close> and \<open>EventStatus(v)\<close>: lookup by value, \<open>ValueError\<close> when there is none.\<close>

definition EventType_of :: "pyval \<Rightarrow> py_error + EventType" where
  "EventType_of v =
     (case List.find (\<lambda>t. PStr (EventType_value t) = v) [BINGO, PVP_TOURNAMENT, GENERAL] of
        None \<Rightarrow> Inl ValueError | Some t \<Rightarrow> Inr t)"

definition EventStatus_of :: "pyval \<Rightarrow> py_error + EventStatus" where
  "EventStatus_of v =
     (case List.find (\<lambda>t. PStr (EventStatus_value t) = v)
             [OPEN, FULL, IN_PROGRESS, COMPLETED, CANCELLED] of
        None \<Rightarrow> Inl ValueError | Some t \<Rightarrow> Inr t)"

section \<open>models/event.py\<close>

record event =
  event_id :: string
  event_type :: EventType
  name :: string
  description :: string
  creator_id :: int
  guild_id :: int
  max_participants :: int
  created_at :: datetime
  event_date :: "datetime option"
  status :: EventStatus
  participants :: "int list"
  checked_in_participants :: "int list"
  teams :: "int list list"
  team_size :: "int option"
  message_id :: "int option"
  thread_id :: "int option"
  reminder_sent :: bool
  check_in_enabled :: bool
  check_in_start_time :: "datetime option"
  check_in_end_time :: "datetime option"

text \<open>\<open>Event.__init__\<close>; \<open>utcnow\<close> is the clock reading taken by the constructor.\<close>

definition Event_init ::
  "datetime \<Rightarrow> string \<Rightarrow> EventType \<Rightarrow> string \<Rightarrow> string \<Rightarrow> int \<Rightarrow> int \<Rightarrow> int \<Rightarrow> datetime option \<Rightarrow> event" where
  "Event_init utcnow eid ety nm descr creator guild maxp edate =
     \<lparr>event_id = eid, event_type = ety, name = nm, description = descr, creator_id = creator,
      guild_id = guild, max_participants = maxp, created_at = utcnow, event_date = edate,
      status = OPEN, participants = [], checked_in_participants = [], teams = [],
      team_size = None, message_id = None, thread_id = None, reminder_sent = False,
      check_in_enabled = False, check_in_start_time = None, check_in_end_time = None\<rparr>"

definition participant_count :: "event \<Rightarrow> int" where
  "participant_count e = int (length (participants e))"

definition checked_in_count :: "event \<Rightarrow> int" where
  "checked_in_count e = int (length (checked_in_participants e))"

definition is_full :: "event \<Rightarrow> bool" where
  "is_full e = (participant_count e \<ge> max_participants e)"

definition add_participant :: "event \<Rightarrow> int \<Rightarrow> bool \<times> event" where
  "add_participant e user_id =
     (if user_id \<in> set (participants e) then (False, e)
      else if is_full e then (False, e)
      else let e1 = e\<lparr>participants := participants e @ [user_id]\<rparr>;
               e2 = (if is_full e1 then e1\<lparr>status := FULL\<rparr> else e1)
           in (True, e2))"

text \<open>
  \<open>remove_participant\<close> on an event read as a value, each list attribute a list of its
  own: the loop over the teams takes the user out of the first team holding them, then
  \<open>break\<close>. Python removes in place from list objects; section "List objects and
  sharing" below has the method on objects, and shows that it is this function whenever
  the lists of the event are separate objects.
\<close>

fun remove_from_teams :: "int \<Rightarrow> int list list \<Rightarrow> int list list" where
  "remove_from_teams user_id [] = []"
| "remove_from_teams user_id (team # rest) =
     (if user_id \<in> set team then remove1 user_id team # rest
      else team # remove_from_teams user_id rest)"

definition remove_participant :: "event \<Rightarrow> int \<Rightarrow> bool \<times> event" where
  "remove_participant e user_id =
     (if user_id \<notin> set (participants e) then (False, e)
      else let e1 = e\<lparr>participants := remove1 user_id (participants e)\<rparr>;
               e2 = e1\<lparr>teams := remove_from_teams user_id (teams e1)\<rparr>;
               e3 = (if status e2 = FULL \<and> \<not> is_full e2 then e2\<lparr>status := OPEN\<rparr> else e2)
           in (True, e3))"

definition is_participant :: "event \<Rightarrow> int \<Rightarrow> bool" where
  "is_participant e user_id = (user_id \<in> set (participants e))"


text \<open>
  A datetime object is always truthy, so \<open>if self.check_in_start_time and now < ...\<close>
  tests for \<open>None\<close> and then compares. \<open>now\<close> is the method's own \<open>datetime.utcnow()\<close>.
\<close>

definition before_start :: "event \<Rightarrow> datetime \<Rightarrow> bool" where
  "before_start e now = (case check_in_start_time e of None \<Rightarrow> False | Some s \<Rightarrow> dt_less now s)"

definition after_end :: "event \<Rightarrow> datetime \<Rightarrow> bool" where
  "after_end e now = (case check_in_end_time e of None \<Rightarrow> False | Some t \<Rightarrow> dt_less t now)"

definition check_in_participant :: "datetime \<Rightarrow> event \<Rightarrow> int \<Rightarrow> bool \<times> event" where
  "check_in_participant now e user_id =
     (if \<not> is_participant e user_id then (False, e)
      else if \<not> check_in_enabled e then (False, e)
      else if before_start e now then (False, e)
      else if after_end e now then (False, e)
      else if user_id \<in> set (checked_in_participants e) then (False, e)
      else (True, e\<lparr>checked_in_participants := checked_in_participants e @ [user_id]\<rparr>))"

definition check_out_participant :: "event \<Rightarrow> int \<Rightarrow> bool \<times> event" where
  "check_out_participant e user_id =
     (if user_id \<notin> set (checked_in_participants e) then (False, e)
      else (True, e\<lparr>checked_in_participants := remove1 user_id (checked_in_participants e)\<rparr>))"

definition enable_check_in :: "event \<Rightarrow> datetime option \<Rightarrow> datetime option \<Rightarrow> event" where
  "enable_check_in e start_time end_time =
     e\<lparr>check_in_enabled := True, check_in_start_time := start_time, check_in_end_time := end_time\<rparr>"

definition disable_check_in :: "event \<Rightarrow> event" where
  "disable_check_in e = e\<lparr>check_in_enabled := False\<rparr>"


definition set_teams :: "event \<Rightarrow> int list list \<Rightarrow> int \<Rightarrow> event" where
  "set_teams e ts sz = e\<lparr>teams := ts, team_size := Some sz\<rparr>"

definition clear_teams :: "event \<Rightarrow> event" where
  "clear_teams e = e\<lparr>teams := [], team_size := None\<rparr>"

subsection \<open>List objects and sharing\<close>

text \<open>
  A Python list is an object: \<open>self.participants.remove(user_id)\<close> and
  \<open>team.remove(user_id)\<close> change the object, and every attribute or team entry that is
  this object shows the change. The store maps the address of a list object to its
  content; \<open>event_lists\<close> says at which addresses the participant list, the checked-in
  list and the entries of \<open>teams\<close> of one event are. \<open>set_teams\<close> stores the lists it is
  given, so one object can be several entries of \<open>teams\<close>, or be a team and another
  attribute at once. The remaining attributes are read from an \<open>event\<close> record, whose
  own list fields are not used: \<open>snapshot\<close> is the event as it reads in a given store.
\<close>

type_synonym ref = nat

type_synonym store = "ref \<Rightarrow> int list"

record event_lists =
  participants_ref :: ref
  checked_in_ref :: ref
  team_refs :: "ref list"

definition snapshot :: "store \<Rightarrow> event_lists \<Rightarrow> event \<Rightarrow> event" where
  "snapshot s l e =
     e\<lparr>participants := s (participants_ref l),
       checked_in_participants := s (checked_in_ref l),
       teams := map s (team_refs l)\<rparr>"

text \<open>
  \<open>for team in self.teams: if user_id in team: team.remove(user_id); break\<close>, on the
  objects.
\<close>

fun remove_in_teams :: "int \<Rightarrow> ref list \<Rightarrow> store \<Rightarrow> store" where
  "remove_in_teams user_id [] s = s"
| "remove_in_teams user_id (r # rest) s =
     (if user_id \<in> set (s r) then s(r := remove1 user_id (s r))
      else remove_in_teams user_id rest s)"

text \<open>
  \<open>Event.remove_participant\<close> on the objects: the result, the store afterwards, and the
  event as it reads afterwards.
\<close>

definition remove_participant_obj :: "store \<Rightarrow> event_lists \<Rightarrow> event \<Rightarrow> int \<Rightarrow> bool \<times> store \<times> event" where
  "remove_participant_obj s l e user_id =
     (if user_id \<notin> set (s (participants_ref l)) then (False, s, snapshot s l e)
      else let s1 = s(participants_ref l := remove1 user_id (s (participants_ref l)));
               s2 = remove_in_teams user_id (team_refs l) s1;
               e1 = snapshot s2 l e;
               e2 = (if status e1 = FULL \<and> \<not> is_full e1 then e1\<lparr>status := OPEN\<rparr> else e1)
           in (True, s2, e2))"

text \<open>\<open>to_dict\<close>: the keys in the order the source writes them.\<close>

definition opt_iso :: "datetime option \<Rightarrow> pyval" where
  "opt_iso v = (case v of None \<Rightarrow> PNone | Some d \<Rightarrow> PStr (isoformat d))"

definition to_dict :: "event \<Rightarrow> pydict" where
  "to_dict e =
     [(''event_id'', PStr (event_id e)),
      (''event_type'', PStr (EventType_value (event_type e))),
      (''name'', PStr (name e)),
      (''description'', PStr (description e)),
      (''creator_id'', PInt (creator_id e)),
      (''guild_id'', PInt (guild_id e)),
      (''max_participants'', PInt (max_participants e)),
      (''created_at'', PStr (isoformat (created_at e))),
      (''status'', PStr (EventStatus_value (status e))),
      (''participants'', PList (map PInt (participants e))),
      (''checked_in_participants'', PList (map PInt (checked_in_participants e))),
      (''teams'', PList (map (\<lambda>t. PList (map PInt t)) (teams e))),
      (''team_size'', of_opt_int (team_size e)),
      (''message_id'', of_opt_int (message_id e)),
      (''check_in_enabled'', PBool (check_in_enabled e)),
      (''check_in_start_time'', opt_iso (check_in_start_time e)),
      (''check_in_end_time'', opt_iso (check_in_end_time e))]"

text \<open>
  \<open>from_dict\<close>: the constructor call (which leaves \<open>event_date\<close>, \<open>thread_id\<close> and
  \<open>reminder_sent\<close> at their defaults), then the assignments in the source's order.
  A check-in time is parsed only when the stored value is truthy.
\<close>

definition parse_opt_time :: "pydict \<Rightarrow> string \<Rightarrow> datetime option \<Rightarrow> py_error + datetime option" where
  "parse_opt_time data k old =
     (let v = dict_get data k PNone
      in if truthy v then bind_err (as_str v) (\<lambda>s. bind_err (fromisoformat s) (\<lambda>d. Inr (Some d)))
         else Inr old)"

definition from_dict :: "datetime \<Rightarrow> pydict \<Rightarrow> py_error + event" where
  "from_dict utcnow data =
     bind_err (bind_err (getitem data ''event_id'') as_str) (\<lambda>eid.
     bind_err (bind_err (getitem data ''event_type'') EventType_of) (\<lambda>ety.
     bind_err (bind_err (getitem data ''name'') as_str) (\<lambda>nm.
     bind_err (bind_err (getitem data ''description'') as_str) (\<lambda>descr.
     bind_err (bind_err (getitem data ''creator_id'') as_int) (\<lambda>creator.
     bind_err (bind_err (getitem data ''guild_id'') as_int) (\<lambda>guild.
     bind_err (as_int (dict_get data ''max_participants'' (PInt 100))) (\<lambda>maxp.
     let e0 = Event_init utcnow eid ety nm descr creator guild maxp None in
     bind_err (bind_err (bind_err (getitem data ''created_at'') as_str) fromisoformat) (\<lambda>created.
     bind_err (bind_err (getitem data ''status'') EventStatus_of) (\<lambda>st.
     bind_err (as_int_list (dict_get data ''participants'' (PList []))) (\<lambda>ps.
     bind_err (as_int_list (dict_get data ''checked_in_participants'' (PList []))) (\<lambda>cs.
     bind_err (as_int_list_list (dict_get data ''teams'' (PList []))) (\<lambda>tms.
     bind_err (as_opt_int (dict_get data ''team_size'' PNone)) (\<lambda>tsz.
     bind_err (as_opt_int (dict_get data ''message_id'' PNone)) (\<lambda>mid.
     bind_err (as_bool (dict_get data ''check_in_enabled'' (PBool False))) (\<lambda>cie.
     let e1 = e0\<lparr>created_at := created, status := st, participants := ps,
                 checked_in_participants := cs, teams := tms, team_size := tsz,
                 message_id := mid, check_in_enabled := cie\<rparr> in
     bind_err (parse_opt_time data ''check_in_start_time'' (check_in_start_time e1)) (\<lambda>cstart.
     bind_err (parse_opt_time data ''check_in_end_time'' (check_in_end_time e1)) (\<lambda>cend.
     Inr (e1\<lparr>check_in_start_time := cstart, check_in_end_time := cend\<rparr>))))))))))))))))))"

section \<open>services/team_service.py\<close>

text \<open>
  The loop \<open>for i in range(0, len(shuffled), team_size)\<close>: the slice at \<open>i\<close> is kept
  when it is complete. \<open>team_size\<close> is positive whenever the loop is reached;
  for 0 (where \<open>range\<close> would raise) the function is given the empty result.
\<close>

function make_teams :: "int list \<Rightarrow> nat \<Rightarrow> nat \<Rightarrow> int list list" where
  "make_teams shuffled tsize i =
     (if tsize = 0 \<or> length shuffled \<le> i then []
      else let team = take tsize (drop i shuffled)
           in (if length team = tsize then [team] else []) @ make_teams shuffled tsize (i + tsize))"
  by pat_completeness auto
termination
  by (relation "measure (\<lambda>(shuffled, tsize, i). length shuffled - i)") auto

declare make_teams.simps [simp del]

text \<open>
  \<open>random.shuffle\<close> is the collaborator's primitive: the parameter \<open>shuffle\<close> gives the
  order it leaves the copied list in.
\<close>

definition randomize_teams :: "(int list \<Rightarrow> int list) \<Rightarrow> int list \<Rightarrow> int \<Rightarrow> py_error + int list list" where
  "randomize_teams shuffle participant_ids tsize =
     (if participant_ids = [] then Inl ValueError
      else if tsize \<notin> set [1, 2, 3, 4, 6] then Inl ValueError
      else if length participant_ids < 1 then Inl ValueError
      else if tsize > 1 \<and> int (length participant_ids) < tsize then Inl ValueError
      else Inr (make_teams (shuffle participant_ids) (nat tsize) 0))"

section \<open>services/event_service.py\<close>

text \<open>The two dictionaries of the service, in insertion order.\<close>

record event_service =
  events :: "(string \<times> event) list"
  message_to_event :: "(int \<times> string) list"

definition dict_del :: "'k \<Rightarrow> ('k \<times> 'v) list \<Rightarrow> ('k \<times> 'v) list" where
  "dict_del k d = filter (\<lambda>kv. fst kv \<noteq> k) d"

definition delete_event :: "event_service \<Rightarrow> string \<Rightarrow> bool \<times> event_service" where
  "delete_event svc eid =
     (case map_of (events svc) eid of
        None \<Rightarrow> (False, svc)
      | Some e \<Rightarrow>
          (let m = (case message_id e of
                      None \<Rightarrow> message_to_event svc
                    | Some mid \<Rightarrow> if mid \<noteq> 0 then dict_del mid (message_to_event svc)
                                  else message_to_event svc)
           in (True, svc\<lparr>message_to_event := m, events := dict_del eid (events svc)\<rparr>)))"

fun delete_all :: "event_service \<Rightarrow> string list \<Rightarrow> int \<Rightarrow> int \<times> event_service" where
  "delete_all svc [] cleaned_count = (cleaned_count, svc)"
| "delete_all svc (eid # rest) cleaned_count =
     (case delete_event svc eid of
        (ok, svc') \<Rightarrow> delete_all svc' rest (if ok then cleaned_count + 1 else cleaned_count))"

text \<open>
  \<open>cleanup_old_events\<close>: \<open>now1\<close> is the clock reading whose day is replaced, \<open>now2\<close> the
  second reading, whose day-of-month the count is subtracted from. The \<open>ValueError\<close> of
  \<open>replace\<close> is caught by the method, which then returns 0.
\<close>

definition cleanup_old_events :: "datetime \<Rightarrow> datetime \<Rightarrow> event_service \<Rightarrow> int \<Rightarrow> int \<times> event_service" where
  "cleanup_old_events now1 now2 svc days =
     (case replace_day now1 (day now2 - days) of
        Inl err \<Rightarrow> (0, svc)
      | Inr cutoff_date \<Rightarrow>
          delete_all svc
            (map fst (filter (\<lambda>kv. dt_less (created_at (snd kv)) cutoff_date) (events svc))) 0)"

section \<open>services/reminder_service.py\<close>

text \<open>
  The messaging collaborator: whether \<open>get_channel\<close> finds a thread in the cache,
  whether \<open>fetch_channel\<close> returns one (rather than raising), and whether a
  \<open>thread.send\<close> delivers the message (rather than raising). What was delivered is
  logged, labelled with the event.
\<close>

datatype outgoing = ReminderMessage string int "int list" | TeamSizePrompt string int int

record bot =
  get_channel :: "int \<Rightarrow> bool"
  fetch_channel :: "int \<Rightarrow> bool"
  send :: "outgoing \<Rightarrow> bool"

definition send_team_creation_request :: "bot \<Rightarrow> event \<Rightarrow> int \<Rightarrow> outgoing list" where
  "send_team_creation_request b e thread =
     (if teams e \<noteq> [] then []
      else if length (participants e) < 2 then []
      else if send b (TeamSizePrompt (event_id e) thread (creator_id e))
           then [TeamSizePrompt (event_id e) thread (creator_id e)]
      else [])"

definition send_event_reminder :: "bot \<Rightarrow> event \<Rightarrow> outgoing list" where
  "send_event_reminder b e =
     (case thread_id e of
        None \<Rightarrow> []
      | Some t \<Rightarrow>
          if t = 0 then []
          else if \<not> get_channel b t \<and> \<not> fetch_channel b t then []
          else if participants e = [] then []
          else if \<not> send b (ReminderMessage (event_id e) t (participants e)) then []
          else ReminderMessage (event_id e) t (participants e) # send_team_creation_request b e t)"

text \<open>
  One pass of the loop body of \<open>_check_upcoming_events\<close> over one event: the event
  afterwards, whether \<open>_send_event_reminder\<close> was called (the trigger), and what was
  delivered. The window bounds are \<open>timedelta(seconds=30)\<close> and \<open>timedelta(minutes=3)\<close>.
  The scan runs over \<open>_events.values()\<close>, a list of events here; the dictionary is keyed
  by event id, so the ids in the list are distinct. The scheduler is a single task: scans
  follow one another and do not overlap.
\<close>

definition in_window :: "datetime \<Rightarrow> datetime \<Rightarrow> bool" where
  "in_window now d = (30000000 \<le> dt_sub d now \<and> dt_sub d now \<le> 180000000)"

definition check_event :: "datetime \<Rightarrow> bot \<Rightarrow> event \<Rightarrow> event \<times> string list \<times> outgoing list" where
  "check_event now b e =
     (case event_date e of
        None \<Rightarrow> (e, [], [])
      | Some d \<Rightarrow>
          if reminder_sent e then (e, [], [])
          else if in_window now d
               then (e\<lparr>reminder_sent := True\<rparr>, [event_id e], send_event_reminder b e)
          else (e, [], []))"

fun check_upcoming_events :: "datetime \<Rightarrow> bot \<Rightarrow> event list \<Rightarrow> event list \<times> string list \<times> outgoing list" where
  "check_upcoming_events now b [] = ([], [], [])"
| "check_upcoming_events now b (e # rest) =
     (case check_event now b e of
        (e', trig, out) \<Rightarrow>
          (case check_upcoming_events now b rest of
             (rest', trigs, outs) \<Rightarrow> (e' # rest', trig @ trigs, out @ outs)))"

text \<open>Successive ticks of the loop, each with its own clock reading and collaborator state.\<close>

fun reminder_loop :: "(datetime \<times> bot) list \<Rightarrow> event list \<Rightarrow> event list \<times> string list \<times> outgoing list" where
  "reminder_loop [] evs = (evs, [], [])"
| "reminder_loop ((now, b) # ticks) evs =
     (case check_upcoming_events now b evs of
        (evs', trigs, outs) \<Rightarrow>
          (case reminder_loop ticks evs' of
             (evs'', trigs', outs') \<Rightarrow> (evs'', trigs @ trigs', outs @ outs')))"

section \<open>Sequences of joins and leaves\<close>

datatype call = Add int | Remove int

fun apply_call :: "event \<Rightarrow> call \<Rightarrow> event" where
  "apply_call e (Add u) = snd (add_participant e u)"
| "apply_call e (Remove u) = snd (remove_participant e u)"

text \<open>The states after each call of a sequence, in order.\<close>

fun states_after :: "event \<Rightarrow> call list \<Rightarrow> event list" where
  "states_after e [] = []"
| "states_after e (c # cs) = apply_call e c # states_after (apply_call e c) cs"

text \<open>
  A run of calls on one event: check-in attempts (each with its own clock reading),
  check-outs, joins, leaves, and opening or closing check-in. \<open>check_in_results\<close> lists
  the outcome of every check-in attempt and \<open>check_out_results\<close> the outcome of every
  check-out, in order.
\<close>

datatype action =
    CheckIn datetime int
  | CheckOut int
  | Join int
  | Leave int
  | EnableCheckIn "datetime option" "datetime option"
  | DisableCheckIn

fun perform :: "event \<Rightarrow> action \<Rightarrow> event" where
  "perform e (CheckIn now u) = snd (check_in_participant now e u)"
| "perform e (CheckOut u) = snd (check_out_participant e u)"
| "perform e (Join u) = snd (add_participant e u)"
| "perform e (Leave u) = snd (remove_participant e u)"
| "perform e (EnableCheckIn start_time end_time) = enable_check_in e start_time end_time"
| "perform e DisableCheckIn = disable_check_in e"

fun check_in_results :: "event \<Rightarrow> action list \<Rightarrow> (int \<times> bool) list" where
  "check_in_results e [] = []"
| "check_in_results e (CheckIn now u # rest) =
     (u, fst (check_in_participant now e u)) # check_in_results (perform e (CheckIn now u)) rest"
| "check_in_results e (a # rest) = check_in_results (perform e a) rest"

fun check_out_results :: "event \<Rightarrow> action list \<Rightarrow> (int \<times> bool) list" where
  "check_out_results e [] = []"
| "check_out_results e (CheckOut u # rest) =
     (u, fst (check_out_participant e u)) # check_out_results (perform e (CheckOut u)) rest"
| "check_out_results e (a # rest) = check_out_results (perform e a) rest"

section \<open>Reading the outcome of scheduler ticks\<close>

definition events_after :: "event list \<times> string list \<times> outgoing list \<Rightarrow> event list" where
  "events_after r = fst r"

definition triggered :: "event list \<times> string list \<times> outgoing list \<Rightarrow> string list" where
  "triggered r = fst (snd r)"

definition delivered :: "event list \<times> string list \<times> outgoing list \<Rightarrow> outgoing list" where
  "delivered r = snd (snd r)"

fun is_reminder_for :: "string \<Rightarrow> outgoing \<Rightarrow> bool" where
  "is_reminder_for k (ReminderMessage i t ps) = (i = k)"
| "is_reminder_for k (TeamSizePrompt i t c) = False"

text \<open>
  The firing condition of the scheduler as the specification words it: a scheduled time
  is set, no reminder was sent, and the time until the event is between 30 seconds and
  3 minutes, bounds included (in microseconds).
\<close>

definition due :: "datetime \<Rightarrow> event \<Rightarrow> bool" where
  "due now e =
     (case event_date e of
        None \<Rightarrow> False
      | Some d \<Rightarrow> \<not> reminder_sent e \<and> 30 * 1000000 \<le> dt_sub d now \<and> dt_sub d now \<le> 3 * 60 * 1000000)"

section \<open>The participation invariant and sample values\<close>

definition participation_ok :: "event \<Rightarrow> bool" where
  "participation_ok e = (distinct (participants e) \<and> participant_count e \<le> max_participants e)"

definition t_noon :: datetime where
  "t_noon = \<lparr>year = 2026, month = 11, day = 3, hour = 12, minute = 0, second = 0, microsecond = 0\<rparr>"

text \<open>A two-seat event as the constructor leaves it.\<close>

definition duo_event :: event where
  "duo_event = Event_init t_noon ''a1b2c3d4'' GENERAL ''Raid'' ''Weekly raid'' 11 22 2 None"


text \<open>
  The same event with two participants, a thread, and a start 90 seconds after noon;
  a collaborator that finds every thread and delivers every message, and one that finds
  no thread.
\<close>

definition scheduled_event :: event where
  "scheduled_event =
     duo_event\<lparr>participants := [7, 8], status := FULL,
               event_date := Some (t_noon\<lparr>minute := 1, second := 30\<rparr>), thread_id := Some 5\<rparr>"

definition reliable_bot :: bot where
  "reliable_bot = \<lparr>get_channel = (\<lambda>t. True), fetch_channel = (\<lambda>t. True), send = (\<lambda>m. True)\<rparr>"

definition offline_bot :: bot where
  "offline_bot = \<lparr>get_channel = (\<lambda>t. False), fetch_channel = (\<lambda>t. False), send = (\<lambda>m. True)\<rparr>"

text \<open>A registry holding one event, created on 3 January 2026 at noon.\<close>

definition january_registry :: event_service where
  "january_registry =
     \<lparr>events = [(''a1b2c3d4'', duo_event\<lparr>created_at := t_noon\<lparr>month := 1\<rparr>\<rparr>)],
      message_to_event = []\<rparr>"

text \<open>
  A store in which the list at address 2 holds users 7 and 5, the participant list is at
  address 0 and the checked-in list at address 1. In \<open>twice_stored\<close> the list at 2 is both
  entries of \<open>teams\<close>; in \<open>checked_in_as_team\<close> the checked-in list is the only team; in
  \<open>separate_lists\<close> the teams are the lists at 3, 2 and 4.
\<close>

definition sample_store :: store where
  "sample_store = (\<lambda>r. [])(0 := [7, 8], 1 := [7], 2 := [7, 5], 3 := [8], 4 := [7])"

definition twice_stored :: event_lists where
  "twice_stored = \<lparr>participants_ref = 0, checked_in_ref = 1, team_refs = [2, 2]\<rparr>"

definition checked_in_as_team :: event_lists where
  "checked_in_as_team = \<lparr>participants_ref = 0, checked_in_ref = 1, team_refs = [1]\<rparr>"

definition separate_lists :: event_lists where
  "separate_lists = \<lparr>participants_ref = 0, checked_in_ref = 1, team_refs = [3, 2, 4]\<rparr>"

section \<open>Joining and leaving an event\<close>

lemma length_remove1_int:
  "u \<in> set xs \<Longrightarrow> int (length (remove1 u xs)) = int (length xs) - 1"
proof -
  assume "u \<in> set xs"
  then obtain n where "length xs = Suc n" by (cases xs) auto
  with \<open>u \<in> set xs\<close> show ?thesis by (simp add: length_remove1)
qed

text \<open>
  C4. \<open>add_participant\<close> returns False and leaves the event as it is when the user is
  already a participant or the event is full; otherwise it returns True, the user is
  appended at the end of the participant sequence, and the status becomes FULL when the
  event is full after the addition (and is left alone when it is not). No other field
  changes. On an event whose participant count does not exceed \<open>max_participants\<close>,
  "full" is \<open>participant_count = max_participants\<close>, before and after the addition.
\<close>

theorem add_participant_spec:
  "(user_id \<in> set (participants e) \<or> is_full e \<longrightarrow> add_participant e user_id = (False, e)) \<and>
   (user_id \<notin> set (participants e) \<and> \<not> is_full e \<longrightarrow>
      add_participant e user_id =
        (True, e\<lparr>participants := participants e @ [user_id],
                 status := (if participant_count e + 1 \<ge> max_participants e then FULL else status e)\<rparr>)) \<and>
   (participant_count e \<le> max_participants e \<longrightarrow>
      (is_full e \<longleftrightarrow> participant_count e = max_participants e) \<and>
      (participant_count e + 1 \<ge> max_participants e \<and> \<not> is_full e
         \<longleftrightarrow> participant_count e + 1 = max_participants e))"
  by (auto simp: add_participant_def is_full_def participant_count_def Let_def)

theorem add_participant_spec_witness:
  "7 \<in> set (participants (duo_event\<lparr>participants := [7]\<rparr>)) \<and>
   add_participant (duo_event\<lparr>participants := [7]\<rparr>) 7 = (False, duo_event\<lparr>participants := [7]\<rparr>) \<and>
   8 \<notin> set (participants (duo_event\<lparr>participants := [7]\<rparr>)) \<and>
   \<not> is_full (duo_event\<lparr>participants := [7]\<rparr>) \<and>
   participant_count (duo_event\<lparr>participants := [7]\<rparr>) \<le> max_participants (duo_event\<lparr>participants := [7]\<rparr>) \<and>
   add_participant (duo_event\<lparr>participants := [7]\<rparr>) 8 =
     (True, duo_event\<lparr>participants := [7, 8], status := FULL\<rparr>)"
  using add_participant_spec[of 7 "duo_event\<lparr>participants := [7]\<rparr>"]
        add_participant_spec[of 8 "duo_event\<lparr>participants := [7]\<rparr>"]
  by (simp add: duo_event_def Event_init_def is_full_def participant_count_def)

lemma remove_from_teams_absent:
  "\<forall>t \<in> set ts. u \<notin> set t \<Longrightarrow> remove_from_teams u ts = ts"
  by (induction ts) auto

lemma remove_from_teams_first:
  "\<forall>p \<in> set pre. u \<notin> set p \<Longrightarrow> u \<in> set t \<Longrightarrow>
   remove_from_teams u (pre @ t # post) = pre @ remove1 u t # post"
  by (induction pre) auto

text \<open>The method on an event read as a value.\<close>

lemma remove_participant_value:
  "(user_id \<notin> set (participants e) \<longrightarrow> remove_participant e user_id = (False, e)) \<and>
   (user_id \<in> set (participants e) \<longrightarrow>
      (\<exists>e'. remove_participant e user_id = (True, e') \<and>
         participants e' = remove1 user_id (participants e) \<and>
         (distinct (participants e) \<longrightarrow> set (participants e') = set (participants e) - {user_id}) \<and>
         ((\<forall>t \<in> set (teams e). user_id \<notin> set t) \<longrightarrow> teams e' = teams e) \<and>
         (\<forall>pre t post. teams e = pre @ t # post \<and> (\<forall>p \<in> set pre. user_id \<notin> set p) \<and> user_id \<in> set t
             \<longrightarrow> teams e' = pre @ remove1 user_id t # post) \<and>
         checked_in_participants e' = checked_in_participants e \<and>
         participant_count e' = participant_count e - 1 \<and>
         status e' = (if status e = FULL \<and> \<not> is_full e' then OPEN else status e) \<and>
         e' = e\<lparr>participants := participants e', teams := teams e', status := status e'\<rparr>))"
  by (auto simp: remove_participant_def is_full_def participant_count_def Let_def
        remove_from_teams_absent remove_from_teams_first length_remove1_int)

text \<open>The method on list objects, and its agreement with the value reading.\<close>

lemma remove_in_teams_elsewhere:
  "x \<notin> set rs \<Longrightarrow> remove_in_teams u rs s x = s x"
  by (induction rs) auto

lemma remove_in_teams_absent:
  "\<forall>r \<in> set rs. u \<notin> set (s r) \<Longrightarrow> remove_in_teams u rs s = s"
  by (induction rs) auto

lemma remove_in_teams_first:
  "\<forall>p \<in> set pre. u \<notin> set (s p) \<Longrightarrow> u \<in> set (s r) \<Longrightarrow>
   remove_in_teams u (pre @ r # post) s = s(r := remove1 u (s r))"
  by (induction pre) auto

lemma remove_in_teams_separate:
  "distinct rs \<Longrightarrow> map (remove_in_teams u rs s) rs = remove_from_teams u (map s rs)"
proof (induction rs)
  case Nil
  then show ?case by simp
next
  case (Cons r rs)
  then have nr: "r \<notin> set rs" and d: "distinct rs" by simp_all
  show ?case
  proof (cases "u \<in> set (s r)")
    case True
    have "map (s(r := remove1 u (s r))) rs = map s rs"
      using nr by (auto intro: map_cong)
    with True show ?thesis by simp
  next
    case False
    have "remove_in_teams u rs s r = s r" using nr by (rule remove_in_teams_elsewhere)
    with False Cons.IH[OF d] show ?thesis by simp
  qed
qed

lemma remove_participant_obj_separate:
  assumes sep: "distinct (participants_ref l # checked_in_ref l # team_refs l)"
  shows "remove_participant_obj s l e user_id =
           (fst (remove_participant (snapshot s l e) user_id),
            fst (snd (remove_participant_obj s l e user_id)),
            snd (remove_participant (snapshot s l e) user_id))"
proof (cases "user_id \<in> set (s (participants_ref l))")
  case False
  then show ?thesis
    by (simp add: remove_participant_obj_def remove_participant_def snapshot_def)
next
  case True
  let ?pr = "participants_ref l" and ?cr = "checked_in_ref l" and ?trs = "team_refs l"
  let ?s1 = "s(?pr := remove1 user_id (s ?pr))"
  let ?s2 = "remove_in_teams user_id ?trs ?s1"
  from sep have pt: "?pr \<notin> set ?trs" and ct: "?cr \<notin> set ?trs" and pc: "?cr \<noteq> ?pr"
    and dt: "distinct ?trs" by auto
  have p2: "?s2 ?pr = remove1 user_id (s ?pr)"
    using remove_in_teams_elsewhere[OF pt, of user_id ?s1] by simp
  have c2: "?s2 ?cr = s ?cr"
    using remove_in_teams_elsewhere[OF ct, of user_id ?s1] pc by simp
  have m1: "map ?s1 ?trs = map s ?trs" using pt by (auto intro: map_cong)
  have t2: "map ?s2 ?trs = remove_from_teams user_id (map s ?trs)"
    unfolding remove_in_teams_separate[OF dt, of user_id ?s1] m1 ..
  show ?thesis
    using True p2 c2 t2
    by (simp add: remove_participant_obj_def remove_participant_def snapshot_def Let_def
          is_full_def participant_count_def)
qed


text \<open>
  C5 (as amended). \<open>remove_participant\<close> returns False and changes nothing when the user
  is not in the participant list. Otherwise it returns True, takes the user out of the
  participant list object, then out of the first team list object that still holds
  them, and changes no other list object; the status goes from FULL to OPEN when it was
  FULL and the event is no longer full, and no other attribute changes. When the
  participant list, the checked-in list and the team lists are pairwise different list
  objects, the event reads afterwards as the claim says: the user is gone from the
  participant sequence, the first team that held them has lost them and every other
  team is as before, and the checked-in sequence is as before.
\<close>

theorem remove_participant_objects:
  "(user_id \<notin> set (s (participants_ref l)) \<longrightarrow>
      remove_participant_obj s l e user_id = (False, s, snapshot s l e)) \<and>
   (user_id \<in> set (s (participants_ref l)) \<longrightarrow>
      (\<exists>s' e'. remove_participant_obj s l e user_id = (True, s', e') \<and>
         (let s1 = s(participants_ref l := remove1 user_id (s (participants_ref l)))
          in ((\<forall>r \<in> set (team_refs l). user_id \<notin> set (s1 r)) \<longrightarrow> s' = s1) \<and>
             (\<forall>pre r post. team_refs l = pre @ r # post \<and> (\<forall>p \<in> set pre. user_id \<notin> set (s1 p))
                  \<and> user_id \<in> set (s1 r)
                \<longrightarrow> s' = s1(r := remove1 user_id (s1 r)))) \<and>
         e' = (snapshot s' l e)
                \<lparr>status := (if status e = FULL \<and> \<not> is_full (snapshot s' l e) then OPEN else status e)\<rparr> \<and>
         (distinct (participants_ref l # checked_in_ref l # team_refs l) \<longrightarrow>
            (let e0 = snapshot s l e
             in participants e' = remove1 user_id (participants e0) \<and>
                (distinct (participants e0) \<longrightarrow> set (participants e') = set (participants e0) - {user_id}) \<and>
                ((\<forall>t \<in> set (teams e0). user_id \<notin> set t) \<longrightarrow> teams e' = teams e0) \<and>
                (\<forall>pre t post. teams e0 = pre @ t # post \<and> (\<forall>p \<in> set pre. user_id \<notin> set p)
                     \<and> user_id \<in> set t
                   \<longrightarrow> teams e' = pre @ remove1 user_id t # post) \<and>
                checked_in_participants e' = checked_in_participants e0 \<and>
                participant_count e' = participant_count e0 - 1 \<and>
                status e' = (if status e0 = FULL \<and> \<not> is_full e' then OPEN else status e0) \<and>
                e' = e0\<lparr>participants := participants e', teams := teams e', status := status e'\<rparr>))))"
proof (intro conjI impI)
  assume "user_id \<notin> set (s (participants_ref l))"
  then show "remove_participant_obj s l e user_id = (False, s, snapshot s l e)"
    by (simp add: remove_participant_obj_def)
next
  assume mem: "user_id \<in> set (s (participants_ref l))"
  let ?s1 = "s(participants_ref l := remove1 user_id (s (participants_ref l)))"
  let ?s2 = "remove_in_teams user_id (team_refs l) ?s1"
  let ?e1 = "snapshot ?s2 l e"
  let ?e2 = "?e1\<lparr>status := (if status e = FULL \<and> \<not> is_full ?e1 then OPEN else status e)\<rparr>"
  have st: "status ?e1 = status e" by (simp add: snapshot_def)
  have run: "remove_participant_obj s l e user_id = (True, ?s2, ?e2)"
    using mem by (simp add: remove_participant_obj_def Let_def st)
  have objs: "let s1 = ?s1
          in ((\<forall>r \<in> set (team_refs l). user_id \<notin> set (s1 r)) \<longrightarrow> ?s2 = s1) \<and>
             (\<forall>pre r post. team_refs l = pre @ r # post \<and> (\<forall>p \<in> set pre. user_id \<notin> set (s1 p))
                  \<and> user_id \<in> set (s1 r)
                \<longrightarrow> ?s2 = s1(r := remove1 user_id (s1 r)))"
    unfolding Let_def
    by (auto simp: remove_in_teams_absent remove_in_teams_first simp del: fun_upd_apply)
  have sep: "distinct (participants_ref l # checked_in_ref l # team_refs l) \<longrightarrow>
            (let e0 = snapshot s l e
             in participants ?e2 = remove1 user_id (participants e0) \<and>
                (distinct (participants e0) \<longrightarrow> set (participants ?e2) = set (participants e0) - {user_id}) \<and>
                ((\<forall>t \<in> set (teams e0). user_id \<notin> set t) \<longrightarrow> teams ?e2 = teams e0) \<and>
                (\<forall>pre t post. teams e0 = pre @ t # post \<and> (\<forall>p \<in> set pre. user_id \<notin> set p)
                     \<and> user_id \<in> set t
                   \<longrightarrow> teams ?e2 = pre @ remove1 user_id t # post) \<and>
                checked_in_participants ?e2 = checked_in_participants e0 \<and>
                participant_count ?e2 = participant_count e0 - 1 \<and>
                status ?e2 = (if status e0 = FULL \<and> \<not> is_full ?e2 then OPEN else status e0) \<and>
                ?e2 = e0\<lparr>participants := participants ?e2, teams := teams ?e2, status := status ?e2\<rparr>)"
  proof
    assume d: "distinct (participants_ref l # checked_in_ref l # team_refs l)"
    let ?e0 = "snapshot s l e"
    from remove_participant_obj_separate[OF d, of s e user_id] run
    have v: "remove_participant ?e0 user_id = (True, ?e2)"
      by (metis fst_conv snd_conv prod.collapse)
    have m0: "user_id \<in> set (participants ?e0)" using mem by (simp add: snapshot_def)
    from remove_participant_value[of user_id ?e0] m0 obtain e' where
      r: "remove_participant ?e0 user_id = (True, e')" and
      f1: "participants e' = remove1 user_id (participants ?e0)" and
      f2: "distinct (participants ?e0) \<longrightarrow> set (participants e') = set (participants ?e0) - {user_id}" and
      f3: "(\<forall>t \<in> set (teams ?e0). user_id \<notin> set t) \<longrightarrow> teams e' = teams ?e0" and
      f4: "\<forall>pre t post. teams ?e0 = pre @ t # post \<and> (\<forall>p \<in> set pre. user_id \<notin> set p)
                     \<and> user_id \<in> set t
                   \<longrightarrow> teams e' = pre @ remove1 user_id t # post" and
      f5: "checked_in_participants e' = checked_in_participants ?e0" and
      f6: "participant_count e' = participant_count ?e0 - 1" and
      f7: "status e' = (if status ?e0 = FULL \<and> \<not> is_full e' then OPEN else status ?e0)" and
      f8: "e' = ?e0\<lparr>participants := participants e', teams := teams e', status := status e'\<rparr>"
      by blast
    from r v have eq: "e' = ?e2" by simp
    from f1 f2 f3 f4 f5 f6 f7 f8
    show "let e0 = snapshot s l e
             in participants ?e2 = remove1 user_id (participants e0) \<and>
                (distinct (participants e0) \<longrightarrow> set (participants ?e2) = set (participants e0) - {user_id}) \<and>
                ((\<forall>t \<in> set (teams e0). user_id \<notin> set t) \<longrightarrow> teams ?e2 = teams e0) \<and>
                (\<forall>pre t post. teams e0 = pre @ t # post \<and> (\<forall>p \<in> set pre. user_id \<notin> set p)
                     \<and> user_id \<in> set t
                   \<longrightarrow> teams ?e2 = pre @ remove1 user_id t # post) \<and>
                checked_in_participants ?e2 = checked_in_participants e0 \<and>
                participant_count ?e2 = participant_count e0 - 1 \<and>
                status ?e2 = (if status e0 = FULL \<and> \<not> is_full ?e2 then OPEN else status e0) \<and>
                ?e2 = e0\<lparr>participants := participants ?e2, teams := teams ?e2, status := status ?e2\<rparr>"
      unfolding Let_def eq by (intro conjI)
  qed
  from run objs sep
  show "\<exists>s' e'. remove_participant_obj s l e user_id = (True, s', e') \<and>
         (let s1 = s(participants_ref l := remove1 user_id (s (participants_ref l)))
          in ((\<forall>r \<in> set (team_refs l). user_id \<notin> set (s1 r)) \<longrightarrow> s' = s1) \<and>
             (\<forall>pre r post. team_refs l = pre @ r # post \<and> (\<forall>p \<in> set pre. user_id \<notin> set (s1 p))
                  \<and> user_id \<in> set (s1 r)
                \<longrightarrow> s' = s1(r := remove1 user_id (s1 r)))) \<and>
         e' = (snapshot s' l e)
                \<lparr>status := (if status e = FULL \<and> \<not> is_full (snapshot s' l e) then OPEN else status e)\<rparr> \<and>
         (distinct (participants_ref l # checked_in_ref l # team_refs l) \<longrightarrow>
            (let e0 = snapshot s l e
             in participants e' = remove1 user_id (participants e0) \<and>
                (distinct (participants e0) \<longrightarrow> set (participants e') = set (participants e0) - {user_id}) \<and>
                ((\<forall>t \<in> set (teams e0). user_id \<notin> set t) \<longrightarrow> teams e' = teams e0) \<and>
                (\<forall>pre t post. teams e0 = pre @ t # post \<and> (\<forall>p \<in> set pre. user_id \<notin> set p)
                     \<and> user_id \<in> set t
                   \<longrightarrow> teams e' = pre @ remove1 user_id t # post) \<and>
                checked_in_participants e' = checked_in_participants e0 \<and>
                participant_count e' = participant_count e0 - 1 \<and>
                status e' = (if status e0 = FULL \<and> \<not> is_full e' then OPEN else status e0) \<and>
                e' = e0\<lparr>participants := participants e', teams := teams e', status := status e'\<rparr>))"
    by blast
qed

theorem remove_participant_objects_witness:
  "9 \<notin> set (sample_store (participants_ref separate_lists)) \<and>
   remove_participant_obj sample_store separate_lists (duo_event\<lparr>status := FULL\<rparr>) 9
     = (False, sample_store, snapshot sample_store separate_lists (duo_event\<lparr>status := FULL\<rparr>)) \<and>
   7 \<in> set (sample_store (participants_ref separate_lists)) \<and>
   distinct (participants_ref separate_lists # checked_in_ref separate_lists # team_refs separate_lists) \<and>
   snapshot sample_store separate_lists (duo_event\<lparr>status := FULL\<rparr>)
     = duo_event\<lparr>status := FULL, participants := [7, 8], checked_in_participants := [7],
                 teams := [[8], [7, 5], [7]]\<rparr> \<and>
   fst (remove_participant_obj sample_store separate_lists (duo_event\<lparr>status := FULL\<rparr>) 7) \<and>
   snd (snd (remove_participant_obj sample_store separate_lists (duo_event\<lparr>status := FULL\<rparr>) 7))
     = duo_event\<lparr>status := OPEN, participants := [8], checked_in_participants := [7],
                 teams := [[8], [5], [7]]\<rparr>"
  using remove_participant_objects[of 9 sample_store separate_lists "duo_event\<lparr>status := FULL\<rparr>"]
        remove_participant_objects[of 7 sample_store separate_lists "duo_event\<lparr>status := FULL\<rparr>"]
  by (simp add: remove_participant_obj_def snapshot_def sample_store_def separate_lists_def
        duo_event_def Event_init_def is_full_def participant_count_def)

text \<open>
  C5, the claim as worded (for every event state), fails without that separation. With
  one list object stored as both teams,
  the second team, not the first to hold the user, loses them as well: the teams
  read \<open>[[7,5],[7,5]]\<close> before and \<open>[[5],[5]]\<close> after. With the checked-in list stored as
  a team, the checked-in sequence changes from \<open>[7]\<close> to \<open>[]\<close>.
\<close>

theorem remove_participant_shared_team_counterexample:
  "teams (snapshot sample_store twice_stored duo_event) = [[7, 5], [7, 5]] \<and>
   fst (remove_participant_obj sample_store twice_stored duo_event 7) \<and>
   teams (snd (snd (remove_participant_obj sample_store twice_stored duo_event 7))) = [[5], [5]] \<and>
   checked_in_participants (snapshot sample_store checked_in_as_team duo_event) = [7] \<and>
   fst (remove_participant_obj sample_store checked_in_as_team duo_event 7) \<and>
   checked_in_participants (snd (snd (remove_participant_obj sample_store checked_in_as_team duo_event 7))) = []"
  by (simp add: remove_participant_obj_def snapshot_def sample_store_def twice_stored_def
        checked_in_as_team_def duo_event_def Event_init_def is_full_def participant_count_def)

lemma add_participant_keeps:
  "participation_ok e \<Longrightarrow> participation_ok (snd (add_participant e u))
     \<and> max_participants (snd (add_participant e u)) = max_participants e"
  by (auto simp: participation_ok_def add_participant_def is_full_def participant_count_def Let_def)

lemma remove_participant_keeps:
  "participation_ok e \<Longrightarrow> participation_ok (snd (remove_participant e u))
     \<and> max_participants (snd (remove_participant e u)) = max_participants e"
  by (auto simp: participation_ok_def remove_participant_def is_full_def participant_count_def
        Let_def length_remove1_int)

lemma apply_call_keeps:
  "participation_ok e \<Longrightarrow> participation_ok (apply_call e c)
     \<and> max_participants (apply_call e c) = max_participants e"
  by (cases c) (simp_all add: add_participant_keeps remove_participant_keeps)

lemma states_after_keep:
  "participation_ok e \<Longrightarrow> s \<in> set (states_after e cs) \<Longrightarrow>
   participation_ok s \<and> max_participants s = max_participants e"
proof (induction cs arbitrary: e)
  case Nil
  then show ?case by simp
next
  case (Cons c cs)
  from Cons.prems(1) have k: "participation_ok (apply_call e c)"
    and m: "max_participants (apply_call e c) = max_participants e"
    using apply_call_keeps by blast+
  from Cons.prems(2) consider "s = apply_call e c" | "s \<in> set (states_after (apply_call e c) cs)"
    by auto
  then show ?case
  proof cases
    case 1
    with k m show ?thesis by simp
  next
    case 2
    from Cons.IH[OF k 2] m show ?thesis by simp
  qed
qed

text \<open>
  C6. Start from an event as created (the constructor's state, with the team size the
  registry may set on it) whose \<open>max_participants\<close> is not negative, and apply any finite
  sequence of \<open>add_participant\<close> and \<open>remove_participant\<close> calls with any user ids. In the
  state after each call the participant sequence has no duplicate and the participant
  count does not exceed \<open>max_participants\<close>, which is still the value given at creation.
\<close>

theorem participants_invariant:
  "0 \<le> maxp \<Longrightarrow>
   s \<in> set (states_after ((Event_init utcnow eid ety nm descr creator guild maxp edate)\<lparr>team_size := tsz\<rparr>) calls) \<Longrightarrow>
   distinct (participants s) \<and> participant_count s \<le> max_participants s \<and> max_participants s = maxp"
proof -
  let ?e0 = "(Event_init utcnow eid ety nm descr creator guild maxp edate)\<lparr>team_size := tsz\<rparr>"
  assume m: "0 \<le> maxp" and s: "s \<in> set (states_after ?e0 calls)"
  from m have "participation_ok ?e0"
    by (simp add: participation_ok_def Event_init_def participant_count_def)
  from states_after_keep[OF this s] show ?thesis
    by (simp add: participation_ok_def Event_init_def)
qed

theorem participants_invariant_witness:
  "(0::int) \<le> 2 \<and>
   duo_event\<lparr>team_size := Some 3, participants := [8], status := OPEN\<rparr>
     \<in> set (states_after (duo_event\<lparr>team_size := Some 3\<rparr>) [Add 7, Add 7, Add 8, Add 9, Remove 7]) \<and>
   distinct (participants (duo_event\<lparr>team_size := Some 3, participants := [8], status := OPEN\<rparr>)) \<and>
   participant_count (duo_event\<lparr>team_size := Some 3, participants := [8], status := OPEN\<rparr>) \<le> 2"
proof -
  have h: "(0::int) \<le> 2" by simp
  have m: "duo_event\<lparr>team_size := Some 3, participants := [8], status := OPEN\<rparr>
     \<in> set (states_after ((Event_init t_noon ''a1b2c3d4'' GENERAL ''Raid'' ''Weekly raid'' 11 22 2 None)\<lparr>team_size := Some 3\<rparr>)
              [Add 7, Add 7, Add 8, Add 9, Remove 7])"
    by (simp add: duo_event_def Event_init_def add_participant_def remove_participant_def
          is_full_def participant_count_def)
  from participants_invariant[OF h m] h m show ?thesis
    by (simp add: duo_event_def)
qed

section \<open>Check-in\<close>

lemma check_in_step:
  "check_in_results e (a # rest) =
     (case a of CheckIn now u \<Rightarrow> [(u, fst (check_in_participant now e u))] | _ \<Rightarrow> [])
     @ check_in_results (perform e a) rest"
  by (cases a) simp_all

lemma check_out_step:
  "check_out_results e (a # rest) =
     (case a of CheckOut u \<Rightarrow> [(u, fst (check_out_participant e u))] | _ \<Rightarrow> [])
     @ check_out_results (perform e a) rest"
  by (cases a) simp_all








section \<open>Team randomizer\<close>

lemma make_teams_chunks:
  "0 < n \<Longrightarrow>
   make_teams xs n i = map (\<lambda>j. take n (drop (i + j * n) xs)) [0..<(length xs - i) div n]"
proof (induction xs n i rule: make_teams.induct)
  case (1 xs n i)
  show ?case
  proof (cases "length xs \<le> i")
    case True
    then show ?thesis by (subst make_teams.simps) simp
  next
    case False
    note open_ = this
    show ?thesis
    proof (cases "n \<le> length xs - i")
      case True
      then have d: "(length xs - i) div n = Suc ((length xs - (i + n)) div n)"
        using \<open>0 < n\<close> by (simp add: le_div_geq)
      have ih: "make_teams xs n (i + n) =
                  map (\<lambda>j. take n (drop (i + n + j * n) xs)) [0..<(length xs - (i + n)) div n]"
        using "1.IH"[OF _ refl] open_ \<open>0 < n\<close> by simp
      have "make_teams xs n i = take n (drop i xs) # make_teams xs n (i + n)"
        using open_ True \<open>0 < n\<close> by (subst make_teams.simps) (simp add: Let_def min_def)
      also have "\<dots> = map (\<lambda>j. take n (drop (i + j * n) xs)) [0..<Suc ((length xs - (i + n)) div n)]"
        unfolding ih by (simp add: upt_conv_Cons map_Suc_upt[symmetric] add.assoc add.commute del: upt_Suc)
      finally show ?thesis using d by simp
    next
      case False
      then have d: "(length xs - i) div n = 0" by simp
      have "length xs \<le> i + n" using False by simp
      then have "make_teams xs n (i + n) = []" by (subst make_teams.simps) simp
      then have "make_teams xs n i = []"
        using open_ False \<open>0 < n\<close> by (subst make_teams.simps) (simp add: Let_def min_def)
      with d show ?thesis by simp
    qed
  qed
qed

lemma concat_chunks:
  "k * n \<le> length xs \<Longrightarrow>
   concat (map (\<lambda>j. take n (drop (j * n) xs)) [0..<k]) = take (k * n) xs"
proof (induction k)
  case 0
  then show ?case by simp
next
  case (Suc k)
  then have "concat (map (\<lambda>j. take n (drop (j * n) xs)) [0..<k]) = take (k * n) xs" by simp
  have "take (Suc k * n) xs = take (k * n + n) xs" by (simp add: add.commute)
  also have "\<dots> = take (k * n) xs @ take n (drop (k * n) xs)" by (rule take_add)
  finally show ?case using \<open>concat (map (\<lambda>j. take n (drop (j * n) xs)) [0..<k]) = take (k * n) xs\<close>
    by simp
qed

lemma teams_of_shuffled:
  assumes n: "0 < n" and tms: "tms = make_teams sh n 0"
  shows "length tms = length sh div n"
    and "\<forall>j < length tms. tms ! j = take n (drop (j * n) sh)"
    and "\<forall>t \<in> set tms. length t = n"
    and "concat tms = take (length tms * n) sh"
proof -
  have eq: "tms = map (\<lambda>j. take n (drop (j * n) sh)) [0..<length sh div n]"
    using make_teams_chunks[OF n, of sh 0] tms by simp
  then show len: "length tms = length sh div n" by simp
  show "\<forall>j < length tms. tms ! j = take n (drop (j * n) sh)"
    using eq by simp
  have le: "length sh div n * n \<le> length sh" by simp
  show "\<forall>t \<in> set tms. length t = n"
  proof
    fix t assume "t \<in> set tms"
    then obtain j where j: "j < length sh div n" and t: "t = take n (drop (j * n) sh)"
      using eq by auto
    from j have "Suc j * n \<le> length sh div n * n" by (intro mult_le_mono1) simp
    with le have "Suc j * n \<le> length sh" by (rule le_trans[rotated])
    then have "j * n + n \<le> length sh" by (simp add: add.commute)
    then show "length t = n" using t by simp
  qed
  show "concat tms = take (length tms * n) sh"
    using concat_chunks[OF le] eq len by simp
qed

text \<open>
  C2. Take a participant list that is not empty, a team size among 1, 2, 3, 4, 6 that the
  list can fill at least once (the inputs on which the function does not raise), and let
  \<open>random.shuffle\<close> leave a permutation of the list. Then \<open>randomize_teams\<close> returns the
  teams, which are the consecutive slices of length \<open>team_size\<close> of the shuffled list:
  there are \<open>len div team_size\<close> of them, each has exactly \<open>team_size\<close> members, every
  member is an id of the input, on a duplicate-free participant list no id occurs twice
  in the teams, and the \<open>len mod team_size\<close> ids of the final partial slice are in no
  team. For \<open>[1,2,3,4,5]\<close> and size 2 this gives 2 teams of 2 members covering 4 distinct
  ids out of the 5.
\<close>

theorem randomize_teams_partition:
  "participant_ids \<noteq> [] \<and> tsize \<in> {1, 2, 3, 4, 6}
     \<and> tsize \<le> int (length participant_ids)
     \<and> mset (shuffle participant_ids) = mset participant_ids \<longrightarrow>
   (\<exists>tms. randomize_teams shuffle participant_ids tsize = Inr tms \<and>
      length tms = length participant_ids div nat tsize \<and>
      (\<forall>j < length tms.
          tms ! j = take (nat tsize) (drop (j * nat tsize) (shuffle participant_ids))) \<and>
      (\<forall>t \<in> set tms. int (length t) = tsize) \<and>
      set (concat tms) \<subseteq> set participant_ids \<and>
      (distinct participant_ids \<longrightarrow> distinct (concat tms)) \<and>
      length (concat tms) = length tms * nat tsize \<and>
      length participant_ids - length (concat tms) = length participant_ids mod nat tsize \<and>
      (participant_ids = [1, 2, 3, 4, 5] \<and> tsize = 2 \<longrightarrow>
         length tms = 2 \<and> (\<forall>t \<in> set tms. length t = 2) \<and>
         card (set (concat tms)) = 4 \<and> set (concat tms) \<subseteq> {1, 2, 3, 4, 5}))"
proof
  assume a: "participant_ids \<noteq> [] \<and> tsize \<in> {1, 2, 3, 4, 6}
     \<and> tsize \<le> int (length participant_ids)
     \<and> mset (shuffle participant_ids) = mset participant_ids"
  let ?sh = "shuffle participant_ids"
  let ?n = "nat tsize"
  let ?tms = "make_teams ?sh ?n 0"
  from a have n: "0 < ?n" and tn: "int ?n = tsize" by auto
  from a have perm: "mset ?sh = mset participant_ids" by simp
  then have lensh: "length ?sh = length participant_ids" by (rule mset_eq_length)
  from perm have setsh: "set ?sh = set participant_ids" by (rule mset_eq_setD)
  from a have run: "randomize_teams shuffle participant_ids tsize = Inr ?tms"
    by (auto simp: randomize_teams_def)
  note t = teams_of_shuffled[OF n refl, of ?sh]
  have len: "length ?tms = length participant_ids div ?n" using t(1) lensh by simp
  have sizes: "\<forall>t \<in> set ?tms. int (length t) = tsize" using t(3) tn by auto
  have cat: "concat ?tms = take (length ?tms * ?n) ?sh" by (rule t(4))
  have sub: "set (concat ?tms) \<subseteq> set participant_ids"
    using cat setsh set_take_subset[of "length ?tms * ?n" ?sh] by simp
  have dist: "distinct participant_ids \<longrightarrow> distinct (concat ?tms)"
  proof
    assume "distinct participant_ids"
    then have "distinct ?sh" using perm by (metis mset_eq_imp_distinct_iff)
    then show "distinct (concat ?tms)" using cat by simp
  qed
  have le: "length ?tms * ?n \<le> length participant_ids" using len by simp
  have lcat: "length (concat ?tms) = length ?tms * ?n"
    using cat le lensh by simp
  have left: "length participant_ids - length (concat ?tms) = length participant_ids mod ?n"
    using lcat len by (simp add: minus_div_mult_eq_mod)
  have inst: "participant_ids = [1, 2, 3, 4, 5] \<and> tsize = 2 \<longrightarrow>
         length ?tms = 2 \<and> (\<forall>t \<in> set ?tms. length t = 2) \<and>
         card (set (concat ?tms)) = 4 \<and> set (concat ?tms) \<subseteq> {1, 2, 3, 4, 5}"
  proof
    assume i: "participant_ids = [1, 2, 3, 4, 5] \<and> tsize = 2"
    then have l2: "length ?tms = 2" using len by simp
    from i have "distinct participant_ids" by simp
    with dist have "distinct (concat ?tms)" by simp
    then have "card (set (concat ?tms)) = length (concat ?tms)" by (rule distinct_card)
    then have c4: "card (set (concat ?tms)) = 4" using lcat l2 i by simp
    from sub i have s5: "set (concat ?tms) \<subseteq> {1, 2, 3, 4, 5}" by auto
    from t(3) i have "\<forall>t \<in> set ?tms. length t = 2" by simp
    with l2 c4 s5 show "length ?tms = 2 \<and> (\<forall>t \<in> set ?tms. length t = 2) \<and>
         card (set (concat ?tms)) = 4 \<and> set (concat ?tms) \<subseteq> {1, 2, 3, 4, 5}" by blast
  qed
  from run len t(2) sizes sub dist lcat left inst
  show "\<exists>tms. randomize_teams shuffle participant_ids tsize = Inr tms \<and>
      length tms = length participant_ids div nat tsize \<and>
      (\<forall>j < length tms.
          tms ! j = take (nat tsize) (drop (j * nat tsize) (shuffle participant_ids))) \<and>
      (\<forall>t \<in> set tms. int (length t) = tsize) \<and>
      set (concat tms) \<subseteq> set participant_ids \<and>
      (distinct participant_ids \<longrightarrow> distinct (concat tms)) \<and>
      length (concat tms) = length tms * nat tsize \<and>
      length participant_ids - length (concat tms) = length participant_ids mod nat tsize \<and>
      (participant_ids = [1, 2, 3, 4, 5] \<and> tsize = 2 \<longrightarrow>
         length tms = 2 \<and> (\<forall>t \<in> set tms. length t = 2) \<and>
         card (set (concat tms)) = 4 \<and> set (concat tms) \<subseteq> {1, 2, 3, 4, 5})"
    by blast
qed

theorem randomize_teams_partition_witness:
  "[1, 2, 3, 4, 5] \<noteq> ([] :: int list) \<and> (2::int) \<in> {1, 2, 3, 4, 6}
     \<and> (2::int) \<le> int (length [1, 2, 3, 4, 5 :: int])
     \<and> mset (rev [1, 2, 3, 4, 5 :: int]) = mset [1, 2, 3, 4, 5]
     \<and> randomize_teams rev [1, 2, 3, 4, 5] 2 = Inr [[5, 4], [3, 2]]
     \<and> distinct (concat [[5, 4], [3, 2 :: int]])
     \<and> set (concat [[5, 4], [3, 2 :: int]]) \<subseteq> set [1, 2, 3, 4, 5]"
proof -
  have run: "randomize_teams rev [1, 2, 3, 4, 5] 2 = Inr [[5, 4], [3, 2]]"
    by code_simp
  have hyp: "[1, 2, 3, 4, 5] \<noteq> ([] :: int list) \<and> (2::int) \<in> {1, 2, 3, 4, 6}
     \<and> (2::int) \<le> int (length [1, 2, 3, 4, 5 :: int])
     \<and> mset (rev [1, 2, 3, 4, 5 :: int]) = mset [1, 2, 3, 4, 5]"
    by simp
  from randomize_teams_partition[of "[1, 2, 3, 4, 5]" 2 rev] hyp run show ?thesis
    by simp
qed

text \<open>
  C3. \<open>randomize_teams\<close> raises exactly when the participant list is empty, or the team
  size is not one of 1, 2, 3, 4, 6, or the team size is above 1 and there are fewer
  participants than that; what it raises is \<open>ValueError\<close>. On every other input it
  returns.
\<close>

theorem randomize_teams_raises:
  "(isl (randomize_teams shuffle participant_ids tsize) \<longleftrightarrow>
      participant_ids = [] \<or> tsize \<notin> {1, 2, 3, 4, 6}
        \<or> (tsize > 1 \<and> int (length participant_ids) < tsize)) \<and>
   (isl (randomize_teams shuffle participant_ids tsize) \<longrightarrow>
      randomize_teams shuffle participant_ids tsize = Inl ValueError) \<and>
   (\<not> isl (randomize_teams shuffle participant_ids tsize) \<longrightarrow>
      (\<exists>tms. randomize_teams shuffle participant_ids tsize = Inr tms))"
  by (auto simp: randomize_teams_def)

theorem randomize_teams_raises_witness:
  "randomize_teams rev [] 2 = Inl ValueError \<and>
   (5::int) > 1 \<and> int (length [1, 2 :: int]) < 5 \<and> randomize_teams rev [1, 2] 5 = Inl ValueError \<and>
   (7::int) \<notin> {1, 2, 3, 4, 6} \<and> randomize_teams rev [1, 2, 3, 4, 5, 6, 7] 7 = Inl ValueError \<and>
   \<not> isl (randomize_teams rev [1, 2] 2) \<and> randomize_teams rev [1, 2] 2 = Inr [[2, 1]]"
proof -
  have run: "randomize_teams rev [1, 2] 2 = Inr [[2, 1]]"
    by code_simp
  from randomize_teams_raises[of rev "[]" 2] randomize_teams_raises[of rev "[1, 2]" 5]
       randomize_teams_raises[of rev "[1, 2, 3, 4, 5, 6, 7]" 7]
       randomize_teams_raises[of rev "[1, 2]" 2] run
  show ?thesis by simp
qed

section \<open>Reminder scheduler\<close>

lemma check_event_due:
  "check_event now b e =
     (if due now e then (e\<lparr>reminder_sent := True\<rparr>, [event_id e], send_event_reminder b e)
      else (e, [], []))"
  by (simp add: check_event_def due_def in_window_def split: option.splits)

lemma scan_events:
  "events_after (check_upcoming_events now b evs)
     = map (\<lambda>e. if due now e then e\<lparr>reminder_sent := True\<rparr> else e) evs"
  by (induction evs) (auto simp: events_after_def check_event_due split: prod.splits)

lemma scan_triggered:
  "triggered (check_upcoming_events now b evs) = map event_id (filter (due now) evs)"
  by (induction evs) (auto simp: triggered_def check_event_due split: prod.splits)

lemma scan_delivered:
  "delivered (check_upcoming_events now b evs)
     = concat (map (\<lambda>e. if due now e then send_event_reminder b e else []) evs)"
  by (induction evs) (auto simp: delivered_def check_event_due split: prod.splits)

lemma scan_ids: "map event_id (events_after (check_upcoming_events now b evs)) = map event_id evs"
  by (simp add: scan_events comp_def if_distrib[of event_id] cong: if_cong)

lemma same_id_same_event:
  "distinct (map event_id evs) \<Longrightarrow> e \<in> set evs \<Longrightarrow> e' \<in> set evs \<Longrightarrow>
   event_id e' = event_id e \<Longrightarrow> e' = e"
  by (meson distinct_map inj_onD)

lemma reminders_of_send:
  "length (filter (is_reminder_for k) (send_event_reminder b e)) \<le> (if event_id e = k then 1 else 0)"
  by (auto simp: send_event_reminder_def send_team_creation_request_def split: option.splits)

lemma due_unsent: "due now e \<Longrightarrow> \<not> reminder_sent e"
  by (auto simp: due_def split: option.splits)

lemma budget_list:
  "count_list (map event_id (filter (due now) evs)) k
     + length (filter (\<lambda>e. event_id e = k \<and> \<not> reminder_sent e)
                 (map (\<lambda>e. if due now e then e\<lparr>reminder_sent := True\<rparr> else e) evs))
   = length (filter (\<lambda>e. event_id e = k \<and> \<not> reminder_sent e) evs)"
  by (induction evs) (auto dest: due_unsent)

lemma scan_budget:
  "count_list (triggered (check_upcoming_events now b evs)) k
     + length (filter (\<lambda>e. event_id e = k \<and> \<not> reminder_sent e)
                 (events_after (check_upcoming_events now b evs)))
   = length (filter (\<lambda>e. event_id e = k \<and> \<not> reminder_sent e) evs)"
  unfolding scan_triggered scan_events by (rule budget_list)

lemma delivered_list:
  "length (filter (is_reminder_for k)
             (concat (map (\<lambda>e. if due now e then send_event_reminder b e else []) evs)))
     \<le> count_list (map event_id (filter (due now) evs)) k"
proof (induction evs)
  case Nil
  then show ?case by simp
next
  case (Cons e evs)
  from reminders_of_send[of k b e] Cons show ?case
    by (auto split: if_splits)
qed

lemma scan_delivered_le:
  "length (filter (is_reminder_for k) (delivered (check_upcoming_events now b evs)))
     \<le> count_list (triggered (check_upcoming_events now b evs)) k"
  unfolding scan_triggered scan_delivered by (rule delivered_list)

lemma loop_unfold:
  "reminder_loop ((now, b) # ticks) evs =
     (events_after (reminder_loop ticks (events_after (check_upcoming_events now b evs))),
      triggered (check_upcoming_events now b evs)
        @ triggered (reminder_loop ticks (events_after (check_upcoming_events now b evs))),
      delivered (check_upcoming_events now b evs)
        @ delivered (reminder_loop ticks (events_after (check_upcoming_events now b evs))))"
  by (simp add: events_after_def triggered_def delivered_def split: prod.splits)

lemma loop_budget:
  "count_list (triggered (reminder_loop ticks evs)) k
     + length (filter (\<lambda>e. event_id e = k \<and> \<not> reminder_sent e)
                 (events_after (reminder_loop ticks evs)))
   = length (filter (\<lambda>e. event_id e = k \<and> \<not> reminder_sent e) evs)"
proof (induction ticks arbitrary: evs)
  case Nil
  then show ?case by (simp add: triggered_def events_after_def)
next
  case (Cons t ticks)
  obtain now b where t: "t = (now, b)" by (cases t)
  let ?evs' = "events_after (check_upcoming_events now b evs)"
  from Cons[of ?evs'] scan_budget[of now b evs k] show ?case
    unfolding t loop_unfold by (simp add: triggered_def events_after_def)
qed

lemma loop_delivered_le:
  "length (filter (is_reminder_for k) (delivered (reminder_loop ticks evs)))
     \<le> count_list (triggered (reminder_loop ticks evs)) k"
proof (induction ticks arbitrary: evs)
  case Nil
  then show ?case by (simp add: triggered_def delivered_def)
next
  case (Cons t ticks)
  obtain now b where t: "t = (now, b)" by (cases t)
  let ?evs' = "events_after (check_upcoming_events now b evs)"
  from Cons[of ?evs'] scan_delivered_le[of k now b evs] show ?case
    unfolding t loop_unfold by (simp add: triggered_def delivered_def)
qed

lemma waiting_le_one:
  "distinct (map event_id evs) \<Longrightarrow>
   length (filter (\<lambda>e. event_id e = k \<and> \<not> reminder_sent e) evs) \<le> 1"
proof (induction evs)
  case Nil
  then show ?case by simp
next
  case (Cons e evs)
  then have ih: "length (filter (\<lambda>e. event_id e = k \<and> \<not> reminder_sent e) evs) \<le> 1" by simp
  show ?case
  proof (cases "event_id e = k")
    case True
    with Cons.prems have "\<forall>x \<in> set evs. event_id x \<noteq> k" by (auto simp: image_iff)
    then have "filter (\<lambda>e. event_id e = k \<and> \<not> reminder_sent e) evs = []"
      by (auto simp: filter_empty_conv)
    then show ?thesis by simp
  next
    case False
    with ih show ?thesis by simp
  qed
qed

lemma waiting_none:
  "\<forall>x \<in> set evs. event_id x = k \<longrightarrow> reminder_sent x \<Longrightarrow>
   length (filter (\<lambda>e. event_id e = k \<and> \<not> reminder_sent e) evs) = 0"
  by (auto simp: filter_empty_conv)


lemma reminder_origin:
  "m \<in> set (send_event_reminder b e) \<Longrightarrow> is_reminder_for k m \<Longrightarrow> event_id e = k"
  by (auto simp: send_event_reminder_def send_team_creation_request_def
        split: option.splits if_splits)

lemma delivered_origin:
  "m \<in> set (delivered (check_upcoming_events now b evs)) \<Longrightarrow> is_reminder_for k m \<Longrightarrow>
   \<exists>e \<in> set evs. due now e \<and> event_id e = k \<and> m \<in> set (send_event_reminder b e)"
  unfolding scan_delivered by (auto split: if_splits dest: reminder_origin)

lemma delivered_contains:
  "e \<in> set evs \<Longrightarrow> due now e \<Longrightarrow>
   set (send_event_reminder b e) \<subseteq> set (delivered (check_upcoming_events now b evs))"
  unfolding scan_delivered by auto

lemma due_explicit:
  "event_date e = Some d \<Longrightarrow> \<not> reminder_sent e \<Longrightarrow>
   due now e = (30000000 \<le> dt_sub d now \<and> dt_sub d now \<le> 180000000)"
  by (simp add: due_def)

lemma triggered_iff_due:
  assumes "distinct (map event_id evs)" "e \<in> set evs"
  shows "event_id e \<in> set (triggered (check_upcoming_events now b evs)) \<longleftrightarrow> due now e"
proof
  assume "event_id e \<in> set (triggered (check_upcoming_events now b evs))"
  then obtain e' where "e' \<in> set evs" "due now e'" "event_id e' = event_id e"
    unfolding scan_triggered by auto
  with same_id_same_event[OF assms, of e'] show "due now e" by simp
next
  assume "due now e"
  with assms(2) show "event_id e \<in> set (triggered (check_upcoming_events now b evs))"
    unfolding scan_triggered by auto
qed

lemma marked_after_scan:
  assumes "distinct (map event_id evs)" "e \<in> set evs" "due now e"
  shows "e\<lparr>reminder_sent := True\<rparr> \<in> set (events_after (check_upcoming_events now b evs))"
    and "\<forall>x \<in> set (events_after (check_upcoming_events now b evs)).
           event_id x = event_id e \<longrightarrow> reminder_sent x"
proof -
  show "e\<lparr>reminder_sent := True\<rparr> \<in> set (events_after (check_upcoming_events now b evs))"
    unfolding scan_events using assms(2,3) by force
  show "\<forall>x \<in> set (events_after (check_upcoming_events now b evs)).
           event_id x = event_id e \<longrightarrow> reminder_sent x"
  proof (intro ballI impI)
    fix x assume x: "x \<in> set (events_after (check_upcoming_events now b evs))"
      and id: "event_id x = event_id e"
    from x obtain y where y: "y \<in> set evs"
      and xy: "x = (if due now y then y\<lparr>reminder_sent := True\<rparr> else y)"
      unfolding scan_events by auto
    from xy id have "event_id y = event_id e" by (simp split: if_splits)
    with same_id_same_event[OF assms(1,2) y] have "y = e" by simp
    with xy assms(3) show "reminder_sent x" by simp
  qed
qed

lemma never_again:
  assumes "\<forall>x \<in> set evs. event_id x = k \<longrightarrow> reminder_sent x"
  shows "k \<notin> set (triggered (reminder_loop ticks evs))"
    and "filter (is_reminder_for k) (delivered (reminder_loop ticks evs)) = []"
proof -
  have "length (filter (\<lambda>e. event_id e = k \<and> \<not> reminder_sent e) evs) = 0"
    using assms by (rule waiting_none)
  with loop_budget[of ticks evs k] have c: "count_list (triggered (reminder_loop ticks evs)) k = 0"
    by simp
  then show "k \<notin> set (triggered (reminder_loop ticks evs))"
    by (simp add: count_list_0_iff)
  from c loop_delivered_le[of k ticks evs]
  show "filter (is_reminder_for k) (delivered (reminder_loop ticks evs)) = []" by simp
qed

text \<open>
  C1. Take a registry whose events have distinct ids and in it an event with a scheduled
  time \<open>d\<close> and \<open>reminder_sent\<close> false. A scan at clock reading \<open>now\<close> calls the send
  step for this event exactly when \<open>d - now\<close> is at least 30 seconds and at most 3
  minutes. Over any run of scans, at any times and whatever the collaborator does, the
  send step is called at most once for the event and at most one reminder message is
  delivered for it. When a scan finds the event in the window, the event is stored with
  \<open>reminder_sent\<close> true, no later scan calls the send step for it, and this scan
  followed by any further scans (a second one inside the window among them) calls the
  send step exactly once; exactly one reminder message is delivered when the thread is
  found, there are participants and the send goes through.
\<close>

theorem reminder_fires_once:
  "distinct (map event_id evs) \<and> e \<in> set evs \<and> event_date e = Some d \<and> \<not> reminder_sent e \<longrightarrow>
   (event_id e \<in> set (triggered (check_upcoming_events now b evs))
      \<longleftrightarrow> 30000000 \<le> dt_sub d now \<and> dt_sub d now \<le> 180000000) \<and>
   count_list (triggered (reminder_loop ticks evs)) (event_id e) \<le> 1 \<and>
   length (filter (is_reminder_for (event_id e)) (delivered (reminder_loop ticks evs))) \<le> 1 \<and>
   (30000000 \<le> dt_sub d now \<and> dt_sub d now \<le> 180000000 \<longrightarrow>
      e\<lparr>reminder_sent := True\<rparr> \<in> set (events_after (check_upcoming_events now b evs)) \<and>
      event_id e \<notin> set (triggered (reminder_loop ticks (events_after (check_upcoming_events now b evs)))) \<and>
      count_list (triggered (reminder_loop ((now, b) # ticks) evs)) (event_id e) = 1 \<and>
      ((\<exists>t. thread_id e = Some t \<and> t \<noteq> 0 \<and> (get_channel b t \<or> fetch_channel b t)
             \<and> participants e \<noteq> [] \<and> send b (ReminderMessage (event_id e) t (participants e)))
         \<longrightarrow> length (filter (is_reminder_for (event_id e))
                       (delivered (reminder_loop ((now, b) # ticks) evs))) = 1))"
proof (intro impI)
  assume a: "distinct (map event_id evs) \<and> e \<in> set evs \<and> event_date e = Some d \<and> \<not> reminder_sent e"
  then have dist: "distinct (map event_id evs)" and mem: "e \<in> set evs" by simp_all
  let ?k = "event_id e"
  let ?w = "30000000 \<le> dt_sub d now \<and> dt_sub d now \<le> 180000000"
  let ?scan = "check_upcoming_events now b evs"
  have due: "due now e = ?w" using a by (simp add: due_explicit)
  have p1: "?k \<in> set (triggered ?scan) \<longleftrightarrow> ?w"
    using triggered_iff_due[OF dist mem, of now b] due by simp
  have budget: "count_list (triggered (reminder_loop ts evs)) ?k \<le> 1" for ts
    using loop_budget[of ts evs ?k] waiting_le_one[OF dist, of ?k] by linarith
  have p2: "count_list (triggered (reminder_loop ticks evs)) ?k \<le> 1" by (rule budget)
  have dl: "length (filter (is_reminder_for ?k) (delivered (reminder_loop ts evs))) \<le> 1" for ts
    using loop_delivered_le[of ?k ts evs] budget[of ts] by linarith
  have p3: "length (filter (is_reminder_for ?k) (delivered (reminder_loop ticks evs))) \<le> 1"
    by (rule dl)
  have p4: "?w \<longrightarrow>
      e\<lparr>reminder_sent := True\<rparr> \<in> set (events_after ?scan) \<and>
      ?k \<notin> set (triggered (reminder_loop ticks (events_after ?scan))) \<and>
      count_list (triggered (reminder_loop ((now, b) # ticks) evs)) ?k = 1 \<and>
      ((\<exists>t. thread_id e = Some t \<and> t \<noteq> 0 \<and> (get_channel b t \<or> fetch_channel b t)
             \<and> participants e \<noteq> [] \<and> send b (ReminderMessage ?k t (participants e)))
         \<longrightarrow> length (filter (is_reminder_for ?k)
                       (delivered (reminder_loop ((now, b) # ticks) evs))) = 1)"
  proof
    assume w: ?w
    with due have d: "due now e" by simp
    note m = marked_after_scan[OF dist mem d, of b]
    have q2: "?k \<notin> set (triggered (reminder_loop ticks (events_after ?scan)))"
      using never_again(1)[OF m(2)] .
    have "?k \<in> set (triggered ?scan)" using p1 w by simp
    then have "?k \<in> set (triggered (reminder_loop ((now, b) # ticks) evs))"
      unfolding loop_unfold by (simp add: triggered_def)
    then have "count_list (triggered (reminder_loop ((now, b) # ticks) evs)) ?k \<noteq> 0"
      by (simp add: count_list_0_iff)
    with budget[of "(now, b) # ticks"]
    have q3: "count_list (triggered (reminder_loop ((now, b) # ticks) evs)) ?k = 1" by linarith
    have q4: "(\<exists>t. thread_id e = Some t \<and> t \<noteq> 0 \<and> (get_channel b t \<or> fetch_channel b t)
             \<and> participants e \<noteq> [] \<and> send b (ReminderMessage ?k t (participants e)))
         \<longrightarrow> length (filter (is_reminder_for ?k)
                       (delivered (reminder_loop ((now, b) # ticks) evs))) = 1"
    proof
      assume "\<exists>t. thread_id e = Some t \<and> t \<noteq> 0 \<and> (get_channel b t \<or> fetch_channel b t)
             \<and> participants e \<noteq> [] \<and> send b (ReminderMessage ?k t (participants e))"
      then obtain t where t: "thread_id e = Some t" "t \<noteq> 0" "get_channel b t \<or> fetch_channel b t"
        "participants e \<noteq> []" "send b (ReminderMessage ?k t (participants e))" by blast
      then have "ReminderMessage ?k t (participants e) \<in> set (send_event_reminder b e)"
        by (auto simp: send_event_reminder_def)
      with delivered_contains[OF mem d, of b]
      have "ReminderMessage ?k t (participants e) \<in> set (delivered ?scan)" by blast
      then have "ReminderMessage ?k t (participants e)
                   \<in> set (filter (is_reminder_for ?k) (delivered (reminder_loop ((now, b) # ticks) evs)))"
        unfolding loop_unfold by (simp add: delivered_def)
      then have "length (filter (is_reminder_for ?k)
                   (delivered (reminder_loop ((now, b) # ticks) evs))) \<noteq> 0"
        by (metis length_0_conv empty_iff empty_set)
      with dl[of "(now, b) # ticks"]
      show "length (filter (is_reminder_for ?k)
                       (delivered (reminder_loop ((now, b) # ticks) evs))) = 1" by linarith
    qed
    from m(1) q2 q3 q4 show "e\<lparr>reminder_sent := True\<rparr> \<in> set (events_after ?scan) \<and>
      ?k \<notin> set (triggered (reminder_loop ticks (events_after ?scan))) \<and>
      count_list (triggered (reminder_loop ((now, b) # ticks) evs)) ?k = 1 \<and>
      ((\<exists>t. thread_id e = Some t \<and> t \<noteq> 0 \<and> (get_channel b t \<or> fetch_channel b t)
             \<and> participants e \<noteq> [] \<and> send b (ReminderMessage ?k t (participants e)))
         \<longrightarrow> length (filter (is_reminder_for ?k)
                       (delivered (reminder_loop ((now, b) # ticks) evs))) = 1)"
      by (intro conjI)
  qed
  from p1 p2 p3 p4 show "(?k \<in> set (triggered ?scan) \<longleftrightarrow> ?w) \<and>
   count_list (triggered (reminder_loop ticks evs)) ?k \<le> 1 \<and>
   length (filter (is_reminder_for ?k) (delivered (reminder_loop ticks evs))) \<le> 1 \<and>
   (?w \<longrightarrow>
      e\<lparr>reminder_sent := True\<rparr> \<in> set (events_after ?scan) \<and>
      ?k \<notin> set (triggered (reminder_loop ticks (events_after ?scan))) \<and>
      count_list (triggered (reminder_loop ((now, b) # ticks) evs)) ?k = 1 \<and>
      ((\<exists>t. thread_id e = Some t \<and> t \<noteq> 0 \<and> (get_channel b t \<or> fetch_channel b t)
             \<and> participants e \<noteq> [] \<and> send b (ReminderMessage ?k t (participants e)))
         \<longrightarrow> length (filter (is_reminder_for ?k)
                       (delivered (reminder_loop ((now, b) # ticks) evs))) = 1))"
    by (intro conjI)
qed

theorem reminder_fires_once_witness:
  "distinct (map event_id [scheduled_event]) \<and> scheduled_event \<in> set [scheduled_event] \<and>
   event_date scheduled_event = Some (t_noon\<lparr>minute := 1, second := 30\<rparr>) \<and>
   \<not> reminder_sent scheduled_event \<and>
   30000000 \<le> dt_sub (t_noon\<lparr>minute := 1, second := 30\<rparr>) t_noon \<and>
   dt_sub (t_noon\<lparr>minute := 1, second := 30\<rparr>) t_noon \<le> 180000000 \<and>
   event_id scheduled_event \<in> set (triggered (check_upcoming_events t_noon reliable_bot [scheduled_event])) \<and>
   count_list (triggered (reminder_loop [(t_noon, reliable_bot), (t_noon\<lparr>second := 15\<rparr>, reliable_bot)]
                            [scheduled_event])) (event_id scheduled_event) = 1 \<and>
   length (filter (is_reminder_for (event_id scheduled_event))
             (delivered (reminder_loop [(t_noon, reliable_bot), (t_noon\<lparr>second := 15\<rparr>, reliable_bot)]
                            [scheduled_event]))) = 1"
proof -
  have h: "distinct (map event_id [scheduled_event]) \<and> scheduled_event \<in> set [scheduled_event] \<and>
     event_date scheduled_event = Some (t_noon\<lparr>minute := 1, second := 30\<rparr>) \<and>
     \<not> reminder_sent scheduled_event"
    by (simp add: scheduled_event_def duo_event_def Event_init_def)
  have w: "30000000 \<le> dt_sub (t_noon\<lparr>minute := 1, second := 30\<rparr>) t_noon \<and>
     dt_sub (t_noon\<lparr>minute := 1, second := 30\<rparr>) t_noon \<le> 180000000"
    by code_simp
  have d: "\<exists>t. thread_id scheduled_event = Some t \<and> t \<noteq> 0
       \<and> (get_channel reliable_bot t \<or> fetch_channel reliable_bot t)
       \<and> participants scheduled_event \<noteq> []
       \<and> send reliable_bot (ReminderMessage (event_id scheduled_event) t (participants scheduled_event))"
    by (simp add: scheduled_event_def reliable_bot_def duo_event_def Event_init_def)
  from reminder_fires_once[of "[scheduled_event]" scheduled_event
         "t_noon\<lparr>minute := 1, second := 30\<rparr>" t_noon reliable_bot
         "[(t_noon\<lparr>second := 15\<rparr>, reliable_bot)]"] h w d
  show ?thesis by blast
qed

text \<open>
  C10. When a scan finds an event (scheduled time set, \<open>reminder_sent\<close> false) inside the
  window, the event is stored with \<open>reminder_sent\<close> true whatever the collaborator does,
  and no later scan calls the send step or delivers a reminder for it. When the event
  has no thread handle (\<open>None\<close> or 0), or the thread is neither cached nor fetched, or
  there is no participant, or the send raises, the send step delivers nothing; so for
  such an event no reminder is delivered by this scan nor by any scan after it.
\<close>

theorem reminder_forfeited:
  "distinct (map event_id evs) \<and> e \<in> set evs \<and> event_date e = Some d \<and> \<not> reminder_sent e
     \<and> 30000000 \<le> dt_sub d now \<and> dt_sub d now \<le> 180000000 \<longrightarrow>
   e\<lparr>reminder_sent := True\<rparr> \<in> set (events_after (check_upcoming_events now b evs)) \<and>
   (\<forall>x \<in> set (events_after (check_upcoming_events now b evs)).
       event_id x = event_id e \<longrightarrow> reminder_sent x) \<and>
   event_id e \<notin> set (triggered (reminder_loop ticks (events_after (check_upcoming_events now b evs)))) \<and>
   filter (is_reminder_for (event_id e))
     (delivered (reminder_loop ticks (events_after (check_upcoming_events now b evs)))) = [] \<and>
   ((thread_id e = None \<or> thread_id e = Some 0
       \<or> (\<exists>t. thread_id e = Some t \<and> \<not> get_channel b t \<and> \<not> fetch_channel b t)
       \<or> participants e = []
       \<or> (\<exists>t. thread_id e = Some t \<and> \<not> send b (ReminderMessage (event_id e) t (participants e))))
     \<longrightarrow> send_event_reminder b e = [] \<and>
         filter (is_reminder_for (event_id e))
           (delivered (reminder_loop ((now, b) # ticks) evs)) = [])"
proof (intro impI)
  assume a: "distinct (map event_id evs) \<and> e \<in> set evs \<and> event_date e = Some d \<and> \<not> reminder_sent e
     \<and> 30000000 \<le> dt_sub d now \<and> dt_sub d now \<le> 180000000"
  then have dist: "distinct (map event_id evs)" and mem: "e \<in> set evs" by simp_all
  let ?k = "event_id e"
  let ?scan = "check_upcoming_events now b evs"
  have d: "due now e" using a by (simp add: due_explicit)
  note m = marked_after_scan[OF dist mem d, of b]
  note n = never_again[OF m(2), of ticks]
  have lost: "(thread_id e = None \<or> thread_id e = Some 0
       \<or> (\<exists>t. thread_id e = Some t \<and> \<not> get_channel b t \<and> \<not> fetch_channel b t)
       \<or> participants e = []
       \<or> (\<exists>t. thread_id e = Some t \<and> \<not> send b (ReminderMessage ?k t (participants e))))
     \<longrightarrow> send_event_reminder b e = [] \<and>
         filter (is_reminder_for ?k) (delivered (reminder_loop ((now, b) # ticks) evs)) = []"
  proof
    assume "thread_id e = None \<or> thread_id e = Some 0
       \<or> (\<exists>t. thread_id e = Some t \<and> \<not> get_channel b t \<and> \<not> fetch_channel b t)
       \<or> participants e = []
       \<or> (\<exists>t. thread_id e = Some t \<and> \<not> send b (ReminderMessage ?k t (participants e)))"
    then have silent: "send_event_reminder b e = []"
      by (auto simp: send_event_reminder_def split: option.splits)
    have "filter (is_reminder_for ?k) (delivered ?scan) = []"
    proof (rule ccontr)
      assume "filter (is_reminder_for ?k) (delivered ?scan) \<noteq> []"
      then obtain msg where msg: "msg \<in> set (delivered ?scan)" "is_reminder_for ?k msg"
        by (auto simp: filter_empty_conv)
      from delivered_origin[OF msg] obtain e' where e': "e' \<in> set evs" "event_id e' = ?k"
        "msg \<in> set (send_event_reminder b e')" by blast
      from same_id_same_event[OF dist mem e'(1,2)] have "e' = e" .
      with e'(3) silent show False by simp
    qed
    with n(2) have "filter (is_reminder_for ?k) (delivered (reminder_loop ((now, b) # ticks) evs)) = []"
      unfolding loop_unfold by (simp add: delivered_def)
    with silent show "send_event_reminder b e = [] \<and>
         filter (is_reminder_for ?k) (delivered (reminder_loop ((now, b) # ticks) evs)) = []"
      by simp
  qed
  from m(1) m(2) n(1) n(2) lost
  show "e\<lparr>reminder_sent := True\<rparr> \<in> set (events_after ?scan) \<and>
   (\<forall>x \<in> set (events_after ?scan). event_id x = ?k \<longrightarrow> reminder_sent x) \<and>
   ?k \<notin> set (triggered (reminder_loop ticks (events_after ?scan))) \<and>
   filter (is_reminder_for ?k) (delivered (reminder_loop ticks (events_after ?scan))) = [] \<and>
   ((thread_id e = None \<or> thread_id e = Some 0
       \<or> (\<exists>t. thread_id e = Some t \<and> \<not> get_channel b t \<and> \<not> fetch_channel b t)
       \<or> participants e = []
       \<or> (\<exists>t. thread_id e = Some t \<and> \<not> send b (ReminderMessage ?k t (participants e))))
     \<longrightarrow> send_event_reminder b e = [] \<and>
         filter (is_reminder_for ?k) (delivered (reminder_loop ((now, b) # ticks) evs)) = [])"
    by (intro conjI)
qed

theorem reminder_forfeited_witness:
  "distinct (map event_id [scheduled_event]) \<and> scheduled_event \<in> set [scheduled_event] \<and>
   event_date scheduled_event = Some (t_noon\<lparr>minute := 1, second := 30\<rparr>) \<and>
   \<not> reminder_sent scheduled_event \<and>
   30000000 \<le> dt_sub (t_noon\<lparr>minute := 1, second := 30\<rparr>) t_noon \<and>
   dt_sub (t_noon\<lparr>minute := 1, second := 30\<rparr>) t_noon \<le> 180000000 \<and>
   (\<exists>t. thread_id scheduled_event = Some t \<and> \<not> get_channel offline_bot t \<and> \<not> fetch_channel offline_bot t) \<and>
   scheduled_event\<lparr>reminder_sent := True\<rparr>
     \<in> set (events_after (check_upcoming_events t_noon offline_bot [scheduled_event])) \<and>
   filter (is_reminder_for (event_id scheduled_event))
     (delivered (reminder_loop [(t_noon, offline_bot), (t_noon\<lparr>second := 15\<rparr>, reliable_bot)]
                    [scheduled_event])) = []"
proof -
  have h: "distinct (map event_id [scheduled_event]) \<and> scheduled_event \<in> set [scheduled_event] \<and>
     event_date scheduled_event = Some (t_noon\<lparr>minute := 1, second := 30\<rparr>) \<and>
     \<not> reminder_sent scheduled_event"
    by (simp add: scheduled_event_def duo_event_def Event_init_def)
  have w: "30000000 \<le> dt_sub (t_noon\<lparr>minute := 1, second := 30\<rparr>) t_noon \<and>
     dt_sub (t_noon\<lparr>minute := 1, second := 30\<rparr>) t_noon \<le> 180000000"
    by code_simp
  have d: "\<exists>t. thread_id scheduled_event = Some t \<and> \<not> get_channel offline_bot t
              \<and> \<not> fetch_channel offline_bot t"
    by (simp add: scheduled_event_def offline_bot_def duo_event_def Event_init_def)
  from reminder_forfeited[of "[scheduled_event]" scheduled_event
         "t_noon\<lparr>minute := 1, second := 30\<rparr>" t_noon offline_bot
         "[(t_noon\<lparr>second := 15\<rparr>, reliable_bot)]"] h w d
  show ?thesis by blast
qed

section \<open>Serialisation\<close>

text \<open>
  What the round trip does keep: \<open>fromisoformat\<close> inverts \<open>isoformat\<close> on every valid
  datetime, and \<open>from_dict (to_dict e)\<close> is \<open>e\<close> with the scheduled time and the thread
  handle cleared and the reminder latch reset.
\<close>

lemma digit_val_char: "k < 10 \<Longrightarrow> digit_val (char_of (48 + k)) = Some k"
  by (simp add: digit_val_def)

lemma parse_digits_append:
  "parse_digits acc (xs @ ys) =
     (case parse_digits acc xs of None \<Rightarrow> None | Some a \<Rightarrow> parse_digits a ys)"
  by (induction xs arbitrary: acc) (auto split: option.splits)

lemma parse_pad: "parse_digits acc (pad w n) = Some (acc * 10 ^ w + n mod 10 ^ w)"
proof (induction w arbitrary: n)
  case 0
  then show ?case by simp
next
  case (Suc w)
  have "n mod 10 < 10" by simp
  then have dv: "digit_val (char_of (48 + n mod 10)) = Some (n mod 10)" by (rule digit_val_char)
  have "(n div 10 mod 10 ^ w) * 10 + n mod 10 = n mod 10 ^ Suc w"
    by (simp add: mod_mult2_eq mult.commute)
  then have "(acc * 10 ^ w + n div 10 mod 10 ^ w) * 10 + n mod 10 = acc * 10 ^ Suc w + n mod 10 ^ Suc w"
    by (simp add: algebra_simps)
  then show ?case
    by (simp add: parse_digits_append Suc dv)
qed

lemma length_pad: "length (pad w n) = w"
  by (induction w arbitrary: n) auto

lemma pad_field: "n < 10 ^ w \<Longrightarrow> parse_digits 0 (pad w n) = Some n"
  by (simp add: parse_pad)


lemma list2: "length xs = 2 \<Longrightarrow> \<exists>a b. xs = [a, b]"
  by (cases xs; cases "tl xs") auto

lemma list4: "length xs = 4 \<Longrightarrow> \<exists>a b c d. xs = [a, b, c, d]"
  by (auto simp: length_Suc_conv numeral_eq_Suc)

lemma list6: "length xs = 6 \<Longrightarrow> \<exists>a b c d e f. xs = [a, b, c, d, e, f]"
  by (auto simp: length_Suc_conv numeral_eq_Suc)

lemma fromisoformat_isoformat:
  assumes v: "valid_datetime d"
  shows "fromisoformat (isoformat d) = Inr d"
proof -
  from v have r: "1 \<le> year d" "year d \<le> 9999" "1 \<le> month d" "month d \<le> 12"
      "1 \<le> day d" "day d \<le> 31" "0 \<le> hour d" "hour d \<le> 23" "0 \<le> minute d" "minute d \<le> 59"
      "0 \<le> second d" "second d \<le> 59" "0 \<le> microsecond d" "microsecond d \<le> 999999"
    by (auto simp: valid_datetime_def days_in_month_def DAYS_IN_MONTH_def nth_Cons'
          split: if_splits)
  obtain y0 y1 y2 y3 where Y: "pad 4 (nat (year d)) = [y0, y1, y2, y3]"
    using list4[OF length_pad] by blast
  obtain m0 m1 where M: "pad 2 (nat (month d)) = [m0, m1]" using list2[OF length_pad] by blast
  obtain d0 d1 where D: "pad 2 (nat (day d)) = [d0, d1]" using list2[OF length_pad] by blast
  obtain h0 h1 where H: "pad 2 (nat (hour d)) = [h0, h1]" using list2[OF length_pad] by blast
  obtain i0 i1 where I: "pad 2 (nat (minute d)) = [i0, i1]" using list2[OF length_pad] by blast
  obtain s0 s1 where S: "pad 2 (nat (second d)) = [s0, s1]" using list2[OF length_pad] by blast
  obtain u0 u1 u2 u3 u4 u5 where U: "pad 6 (nat (microsecond d)) = [u0, u1, u2, u3, u4, u5]"
    using list6[OF length_pad] by blast
  have pY: "parse_digits 0 [y0, y1, y2, y3] = Some (nat (year d))"
    using pad_field[of "nat (year d)" 4] r by (simp add: Y)
  have pM: "parse_digits 0 [m0, m1] = Some (nat (month d))"
    using pad_field[of "nat (month d)" 2] r by (simp add: M)
  have pD: "parse_digits 0 [d0, d1] = Some (nat (day d))"
    using pad_field[of "nat (day d)" 2] r by (simp add: D)
  have pH: "parse_digits 0 [h0, h1] = Some (nat (hour d))"
    using pad_field[of "nat (hour d)" 2] r by (simp add: H)
  have pI: "parse_digits 0 [i0, i1] = Some (nat (minute d))"
    using pad_field[of "nat (minute d)" 2] r by (simp add: I)
  have pS: "parse_digits 0 [s0, s1] = Some (nat (second d))"
    using pad_field[of "nat (second d)" 2] r by (simp add: S)
  have pU: "parse_digits 0 [u0, u1, u2, u3, u4, u5] = Some (nat (microsecond d))"
    using pad_field[of "nat (microsecond d)" 6] r by (simp add: U)
  have same: "\<lparr>year = int (nat (year d)), month = int (nat (month d)), day = int (nat (day d)),
                hour = int (nat (hour d)), minute = int (nat (minute d)),
                second = int (nat (second d)), microsecond = int (nat (microsecond d))\<rparr> = d"
    using r by simp
  show ?thesis
  proof (cases "microsecond d = 0")
    case True
    have iso: "isoformat d = [y0, y1, y2, y3, CHR ''-'', m0, m1, CHR ''-'', d0, d1, CHR ''T'',
                              h0, h1, CHR '':'', i0, i1, CHR '':'', s0, s1]"
      using True unfolding isoformat_def Y M D H I S by simp
    have us: "nat (microsecond d) = 0" using True by simp
    show ?thesis
      unfolding iso fromisoformat_def field_def
      using pY pM pD pH pI pS same v True
      by (simp del: parse_digits.simps)
  next
    case False
    have iso: "isoformat d = [y0, y1, y2, y3, CHR ''-'', m0, m1, CHR ''-'', d0, d1, CHR ''T'',
                              h0, h1, CHR '':'', i0, i1, CHR '':'', s0, s1, CHR ''.'',
                              u0, u1, u2, u3, u4, u5]"
      using False unfolding isoformat_def Y M D H I S U by simp
    show ?thesis
      unfolding iso fromisoformat_def field_def
      using pY pM pD pH pI pS pU same v
      by (simp del: parse_digits.simps)
  qed
qed


lemma isoformat_nonempty: "isoformat d \<noteq> []"
  using length_pad[of 4 "nat (year d)"] by (auto simp: isoformat_def)

lemma as_int_list_ints: "as_int_list (PList (map PInt xs)) = Inr xs"
  by (induction xs) (simp_all add: bind_err_def)

lemma as_int_list_list_teams:
  "as_int_list_list (PList (map (\<lambda>t. PList (map PInt t)) tms)) = Inr tms"
  by (induction tms) (simp_all add: bind_err_def as_int_list_ints)

lemma EventType_of_value: "EventType_of (PStr (EventType_value t)) = Inr t"
  by (cases t) (simp_all add: EventType_of_def)

lemma EventStatus_of_value: "EventStatus_of (PStr (EventStatus_value t)) = Inr t"
  by (cases t) (simp_all add: EventStatus_of_def)

lemma as_opt_int_of: "as_opt_int (of_opt_int v) = Inr v"
  by (cases v) (simp_all add: of_opt_int_def)

lemma parse_opt_time_iso:
  "dict_get data k PNone = opt_iso v \<Longrightarrow> (\<forall>d. v = Some d \<longrightarrow> valid_datetime d) \<Longrightarrow>
   parse_opt_time data k None = Inr v"
  by (cases v)
     (simp_all add: parse_opt_time_def opt_iso_def bind_err_def isoformat_nonempty
        fromisoformat_isoformat)

lemma to_dict_required:
  "getitem (to_dict e) ''event_id'' = Inr (PStr (event_id e))"
  "getitem (to_dict e) ''event_type'' = Inr (PStr (EventType_value (event_type e)))"
  "getitem (to_dict e) ''name'' = Inr (PStr (name e))"
  "getitem (to_dict e) ''description'' = Inr (PStr (description e))"
  "getitem (to_dict e) ''creator_id'' = Inr (PInt (creator_id e))"
  "getitem (to_dict e) ''guild_id'' = Inr (PInt (guild_id e))"
  "getitem (to_dict e) ''created_at'' = Inr (PStr (isoformat (created_at e)))"
  "getitem (to_dict e) ''status'' = Inr (PStr (EventStatus_value (status e)))"
  by (simp_all add: to_dict_def getitem_def)

lemma to_dict_optional:
  "dict_get (to_dict e) ''max_participants'' dflt = PInt (max_participants e)"
  "dict_get (to_dict e) ''participants'' dflt = PList (map PInt (participants e))"
  "dict_get (to_dict e) ''checked_in_participants'' dflt = PList (map PInt (checked_in_participants e))"
  "dict_get (to_dict e) ''teams'' dflt = PList (map (\<lambda>t. PList (map PInt t)) (teams e))"
  "dict_get (to_dict e) ''team_size'' dflt = of_opt_int (team_size e)"
  "dict_get (to_dict e) ''message_id'' dflt = of_opt_int (message_id e)"
  "dict_get (to_dict e) ''check_in_enabled'' dflt = PBool (check_in_enabled e)"
  "dict_get (to_dict e) ''check_in_start_time'' dflt = opt_iso (check_in_start_time e)"
  "dict_get (to_dict e) ''check_in_end_time'' dflt = opt_iso (check_in_end_time e)"
  by (simp_all add: to_dict_def dict_get_def)

lemma from_dict_to_dict:
  assumes "valid_datetime (created_at e)"
    and "\<forall>d. check_in_start_time e = Some d \<longrightarrow> valid_datetime d"
    and "\<forall>d. check_in_end_time e = Some d \<longrightarrow> valid_datetime d"
  shows "from_dict utcnow (to_dict e)
           = Inr (e\<lparr>event_date := None, thread_id := None, reminder_sent := False\<rparr>)"
proof -
  note p1 = parse_opt_time_iso[OF to_dict_optional(8) assms(2)]
  note p2 = parse_opt_time_iso[OF to_dict_optional(9) assms(3)]
  have "from_dict utcnow (to_dict e)
          = Inr ((Event_init utcnow (event_id e) (event_type e) (name e) (description e)
                    (creator_id e) (guild_id e) (max_participants e) None)
                 \<lparr>created_at := created_at e, status := status e, participants := participants e,
                   checked_in_participants := checked_in_participants e, teams := teams e,
                   team_size := team_size e, message_id := message_id e,
                   check_in_enabled := check_in_enabled e,
                   check_in_start_time := check_in_start_time e,
                   check_in_end_time := check_in_end_time e\<rparr>)"
    unfolding from_dict_def
    by (simp add: to_dict_required to_dict_optional bind_err_def Let_def
          fromisoformat_isoformat[OF assms(1)] EventType_of_value EventStatus_of_value
          as_int_list_ints as_int_list_list_teams as_opt_int_of p1 p2 Event_init_def)
  also have "\<dots> = Inr (e\<lparr>event_date := None, thread_id := None, reminder_sent := False\<rparr>)"
    by (cases e) (simp add: Event_init_def)
  finally show ?thesis .
qed

text \<open>
  C8. The claim is that \<open>from_dict (to_dict e)\<close> equals \<open>e\<close> on every field of the data
  model, the scheduled time, the thread handle and the \<open>reminder_sent\<close> latch included.
  The code does not do this: \<open>to_dict\<close> writes no key for \<open>event_date\<close>, \<open>thread_id\<close> and
  \<open>reminder_sent\<close> and \<open>from_dict\<close> leaves them at the constructor's defaults. For the
  scheduled event with its reminder sent, the round trip returns the event with no
  scheduled time, no thread handle and the latch reset, every other field intact.
\<close>

theorem from_dict_to_dict_loses_schedule:
  "from_dict (t_noon\<lparr>hour := 18\<rparr>) (to_dict (scheduled_event\<lparr>reminder_sent := True\<rparr>))
     = Inr (scheduled_event\<lparr>event_date := None, thread_id := None, reminder_sent := False\<rparr>) \<and>
   event_date (scheduled_event\<lparr>reminder_sent := True\<rparr>) = Some (t_noon\<lparr>minute := 1, second := 30\<rparr>) \<and>
   thread_id (scheduled_event\<lparr>reminder_sent := True\<rparr>) = Some 5 \<and>
   reminder_sent (scheduled_event\<lparr>reminder_sent := True\<rparr>)"
proof -
  have "from_dict (t_noon\<lparr>hour := 18\<rparr>) (to_dict (scheduled_event\<lparr>reminder_sent := True\<rparr>))
     = Inr (scheduled_event\<lparr>event_date := None, thread_id := None, reminder_sent := False\<rparr>)"
    by code_simp
  then show ?thesis by (simp add: scheduled_event_def)
qed

section \<open>Cleanup of old events\<close>

text \<open>
  Where \<open>replace\<close> succeeds, that is while \<open>day - days\<close> stays inside the current month,
  the cutoff is the clock reading minus \<open>days\<close> days, the events created before it are
  the ones deleted, and their number is returned.
\<close>

lemma replace_day_cutoff:
  "replace_day now (day now - days) = Inr cutoff \<Longrightarrow>
   micros_of cutoff = micros_of now - days * 86400000000"
  by (auto simp: replace_day_def micros_of_def toordinal_def algebra_simps split: if_splits)

lemma map_of_dict_del: "map_of (dict_del k d) k' = (if k' = k then None else map_of d k')"
  by (induction d) (auto simp: dict_del_def)

lemma delete_event_present:
  "k \<in> fst ` set (events svc) \<Longrightarrow>
   fst (delete_event svc k) \<and> events (snd (delete_event svc k)) = dict_del k (events svc)"
proof -
  assume "k \<in> fst ` set (events svc)"
  then obtain e where "map_of (events svc) k = Some e"
    by (metis domD dom_map_of_conv_image_fst)
  then show ?thesis by (simp add: delete_event_def Let_def split: option.splits)
qed

lemma delete_all_present:
  "distinct ks \<Longrightarrow> set ks \<subseteq> fst ` set (events svc) \<Longrightarrow>
   fst (delete_all svc ks c) = c + int (length ks) \<and>
   events (snd (delete_all svc ks c)) = filter (\<lambda>kv. fst kv \<notin> set ks) (events svc)"
proof (induction ks arbitrary: svc c)
  case Nil
  then show ?case by simp
next
  case (Cons k ks)
  obtain ok svc' where d: "delete_event svc k = (ok, svc')" by (cases "delete_event svc k")
  from Cons.prems have "k \<in> fst ` set (events svc)" by simp
  from delete_event_present[OF this] d
  have ok: ok and ev: "events svc' = dict_del k (events svc)" by simp_all
  from Cons.prems have dks: "distinct ks" and nk: "k \<notin> set ks" by simp_all
  have sub: "set ks \<subseteq> fst ` set (events svc')"
  proof
    fix x assume x: "x \<in> set ks"
    with Cons.prems(2) obtain kv where "kv \<in> set (events svc)" "fst kv = x" by auto
    moreover from x nk have "x \<noteq> k" by auto
    ultimately show "x \<in> fst ` set (events svc')"
      unfolding ev dict_del_def by force
  qed
  note dks sub
  from Cons.IH[OF dks sub, of "c + 1"] d ok ev show ?case
    by (auto simp: dict_del_def intro: filter_cong)
qed

lemma cleanup_old_events_in_month:
  assumes "replace_day now1 (day now2 - days) = Inr cutoff"
    and "distinct (map fst (events svc))"
  shows "fst (cleanup_old_events now1 now2 svc days)
           = int (length (filter (\<lambda>kv. dt_less (created_at (snd kv)) cutoff) (events svc)))"
    and "events (snd (cleanup_old_events now1 now2 svc days))
           = filter (\<lambda>kv. \<not> dt_less (created_at (snd kv)) cutoff) (events svc)"
proof -
  let ?old = "filter (\<lambda>kv. dt_less (created_at (snd kv)) cutoff) (events svc)"
  have run: "cleanup_old_events now1 now2 svc days = delete_all svc (map fst ?old) 0"
    using assms(1) by (simp add: cleanup_old_events_def)
  have dk: "distinct (map fst ?old)" using assms(2) by (rule distinct_map_filter)
  have sub: "set (map fst ?old) \<subseteq> fst ` set (events svc)" by auto
  note r = delete_all_present[OF dk sub, of 0]
  show "fst (cleanup_old_events now1 now2 svc days) = int (length ?old)"
    using r run by simp
  have "filter (\<lambda>kv. fst kv \<notin> set (map fst ?old)) (events svc)
          = filter (\<lambda>kv. \<not> dt_less (created_at (snd kv)) cutoff) (events svc)"
  proof (rule filter_cong[OF refl])
    fix kv assume kv: "kv \<in> set (events svc)"
    show "(fst kv \<notin> set (map fst ?old)) = (\<not> dt_less (created_at (snd kv)) cutoff)"
    proof
      assume "fst kv \<notin> set (map fst ?old)"
      with kv show "\<not> dt_less (created_at (snd kv)) cutoff" by force
    next
      assume n: "\<not> dt_less (created_at (snd kv)) cutoff"
      show "fst kv \<notin> set (map fst ?old)"
      proof
        assume "fst kv \<in> set (map fst ?old)"
        then obtain kv' where kv': "kv' \<in> set (events svc)" "fst kv' = fst kv"
          "dt_less (created_at (snd kv')) cutoff" by auto
        from assms(2) kv kv'(1,2) have "kv' = kv"
          by (meson distinct_map inj_onD)
        with kv'(3) n show False by simp
      qed
    qed
  qed
  with r run show "events (snd (cleanup_old_events now1 now2 svc days))
           = filter (\<lambda>kv. \<not> dt_less (created_at (snd kv)) cutoff) (events svc)"
    by simp
qed

text \<open>Otherwise the method gives up: it returns 0 and the registry is as before.\<close>

lemma cleanup_old_events_gives_up:
  "day now2 - days < 1 \<Longrightarrow> cleanup_old_events now1 now2 svc days = (0, svc)"
  by (simp add: cleanup_old_events_def replace_day_def)

text \<open>
  C9. The claim is that \<open>cleanup_old_events days\<close> deletes exactly the events created
  before now minus \<open>days\<close> days, across month and year boundaries, and returns their
  number. The code replaces the day-of-month by \<open>day - days\<close>; when that is below 1 the
  \<open>ValueError\<close> of \<open>replace\<close> is caught and the method returns 0 with the registry
  untouched. On 3 November 2026 at noon with \<open>days = 7\<close>, an event created on 3 January
  2026 is older than the cutoff of 27 October, yet nothing is deleted and 0 is returned.
\<close>

theorem cleanup_old_events_month_start:
  "map (\<lambda>kv. created_at (snd kv)) (events january_registry) = [t_noon\<lparr>month := 1\<rparr>] \<and>
   micros_of (t_noon\<lparr>month := 1\<rparr>) < micros_of t_noon - 7 * 86400000000 \<and>
   cleanup_old_events t_noon t_noon january_registry 7 = (0, january_registry)"
proof -
  have "micros_of (t_noon\<lparr>month := 1\<rparr>) < micros_of t_noon - 7 * 86400000000"
    by code_simp
  moreover have "cleanup_old_events t_noon t_noon january_registry 7 = (0, january_registry)"
    by (rule cleanup_old_events_gives_up) (simp add: t_noon_def)
  ultimately show ?thesis by (simp add: january_registry_def)
qed

end
